theory Spec2Isabelle
  imports Complex_Main "HOL-Library.Word" "HOL-Library.Multiset" "HOL-Library.Char_ord"
    "HOL-Library.List_Lexorder"
begin

unbundle bit_operations_syntax

section \<open>Data model of \<^verbatim>\<open>src/main.c\<close>\<close>

text \<open>
  The C \<^verbatim>\<open>double\<close> fields (cursor position, scroll offset, font extents) are read as
  real numbers: the claims below are about comparisons, sums and the floor of a quotient,
  not about rounding. The \<^verbatim>\<open>uint32_t\<close> fields are 32-bit words, so that
  \<^verbatim>\<open>height - MENU_PADDING * 2\<close> wraps as it does in C.
\<close>

type_synonym u32 = "32 word"

definition MENU_PADDING :: int where
  "MENU_PADDING = 10"

text \<open>Constants of the system headers the source includes.\<close>

definition BTN_LEFT :: u32 where
  "BTN_LEFT = 0x110"

definition WL_POINTER_BUTTON_STATE_RELEASED :: u32 where
  "WL_POINTER_BUTTON_STATE_RELEASED = 0"

definition WL_POINTER_AXIS_VERTICAL_SCROLL :: u32 where
  "WL_POINTER_AXIS_VERTICAL_SCROLL = 0"

definition WL_OUTPUT_MODE_CURRENT :: u32 where
  "WL_OUTPUT_MODE_CURRENT = 1"

definition WL_SHM_FORMAT_XRGB8888 :: u32 where
  "WL_SHM_FORMAT_XRGB8888 = 1"

text \<open>
  A \<^verbatim>\<open>GAppInfo\<close>: the display name \<^verbatim>\<open>g_app_info_get_name\<close> returns, and the
  identity of the object (two applications may carry the same name).
\<close>

record app_info =
  app_name :: string
  app_handle :: nat

text \<open>
  What the renderer paints into a buffer's memory, as the sequence of cairo drawing
  operations: the grey fill of the whole surface, then one \<^verbatim>\<open>cairo_show_text\<close> per
  painted row with its source colour and its pen position.
\<close>

datatype colour = Grey | Cyan | Black

datatype draw_op =
  Fill_rectangle u32 u32 colour
  | Show_text app_info colour real real

text \<open>
  \<^verbatim>\<open>struct buffer\<close>. \<open>buf_id\<close> stands for the address of the struct (and of the
  \<^verbatim>\<open>wl_buffer\<close> proxy it owns); \<open>buf_data\<close> is the content of the mapped memory.
\<close>

record buffer =
  buf_id :: nat
  busy :: bool
  buf_width :: u32
  buf_height :: u32
  buf_stride :: u32
  buf_format :: u32
  buf_size :: "64 word"
  buf_data :: "draw_op list"

text \<open>
  The \<^verbatim>\<open>wl_surface\<close> a background owns, as the state the requests of the client build
  up on it: the buffer last attached, the damage last posted, the frame callbacks that
  were requested with \<^verbatim>\<open>wl_surface_frame\<close> and not yet destroyed, and the number of
  commits.
\<close>

record wl_surface =
  attached :: "nat option"
  damage :: "(u32 \<times> u32) option"
  frame_callbacks :: "nat list"
  commits :: nat

text \<open>The functions the source stores in the function pointers of a desktop surface.\<close>

datatype handler =
  Background_configure
  | Background_cursor_motion
  | Background_cursor_enter
  | Background_cursor_leave
  | Background_pointer_axis
  | Background_pointer_button

text \<open>\<^verbatim>\<open>struct desktop_surface\<close>; a null function pointer or string is \<open>None\<close>.\<close>

record desktop_surface =
  configure :: "handler option"
  cursor :: "string option"
  cursor_x :: real
  cursor_y :: real
  on_cursor_motion :: "handler option"
  on_cursor_enter :: "handler option"
  on_cursor_leave :: "handler option"
  on_pointer_button :: "handler option"
  on_pointer_axis :: "handler option"
  on_pointer_frame :: "handler option"

text \<open>
  \<^verbatim>\<open>struct background\<close>, with \<^verbatim>\<open>struct desktop_surface base\<close> as the parent record.
  \<open>frame\<close> is the callback handle or \<open>None\<close> for \<^verbatim>\<open>NULL\<close>. \<open>freed\<close> is a ghost field:
  the buffers \<^verbatim>\<open>free_buffer\<close> has destroyed so far, in order.
\<close>

record background = desktop_surface +
  surface :: wl_surface
  buffers :: "buffer list"
  width :: u32
  height :: u32
  y_scroll :: real
  frame :: "nat option"
  needs_draw :: bool
  extents_ascent :: real
  extents_height :: real
  freed :: "buffer list"

text \<open>\<^verbatim>\<open>struct output\<close> (\<open>output\<close> is a reserved word of Isabelle).\<close>

record output_t =
  out_background :: "background option"
  out_width :: u32
  out_height :: u32

text \<open>The ways a handler can leave defined behaviour.\<close>

datatype error =
  Null_dereference
  | Undefined_conversion

section \<open>Buffers\<close>

text \<open>\<^verbatim>\<open>buffer_release\<close>: the listener of one buffer clears its busy flag.\<close>

definition buffer_release :: "buffer \<Rightarrow> buffer" where
  "buffer_release buffer = buffer\<lparr>busy := False\<rparr>"

text \<open>
  What the system calls of \<^verbatim>\<open>create_buffer\<close> do is decided outside the program: one of
  the three checked calls fails, or the buffer is allocated at some address.
\<close>

datatype alloc_result =
  Memfd_create_failed
  | Ftruncate_failed
  | Mmap_failed
  | Allocated nat

text \<open>
  \<^verbatim>\<open>create_buffer\<close>: \<open>Inl\<close> is the \<^verbatim>\<open>NULL\<close> return, carrying the message given to
  \<^verbatim>\<open>perror\<close>. The size is the \<^verbatim>\<open>uint32_t\<close> product, widened to \<^verbatim>\<open>size_t\<close>.
\<close>

definition create_buffer :: "alloc_result \<Rightarrow> u32 \<Rightarrow> u32 \<Rightarrow> u32 \<Rightarrow> u32 \<Rightarrow> string + buffer" where
  "create_buffer sys w h stride fmt =
     (case sys of
        Memfd_create_failed \<Rightarrow> Inl ''Unable to create memfd''
      | Ftruncate_failed \<Rightarrow> Inl ''Unable to truncate memfd''
      | Mmap_failed \<Rightarrow> Inl ''Unable to map memfd''
      | Allocated p \<Rightarrow>
          Inr \<lparr>buf_id = p, busy = False, buf_width = w, buf_height = h, buf_stride = stride,
               buf_format = fmt, buf_size = ucast (h * stride), buf_data = []\<rparr>)"

text \<open>\<^verbatim>\<open>attach_buffer\<close>: the attach request on the surface, and the busy flag.\<close>

definition attach_buffer :: "wl_surface \<Rightarrow> buffer \<Rightarrow> wl_surface \<times> buffer" where
  "attach_buffer s buffer = (s\<lparr>attached := Some (buf_id buffer)\<rparr>, buffer\<lparr>busy := True\<rparr>)"

section \<open>Drawing\<close>

text \<open>
  What a draw takes from outside the program: the outcome of the allocation, the proxy
  \<^verbatim>\<open>wl_surface_frame\<close> returns, the font extents cairo measures, and cairo's stride
  rule for the RGB24 format (\<^verbatim>\<open>cairo_format_stride_for_width\<close>).
\<close>

record draw_env =
  alloc :: alloc_result
  new_callback :: nat
  font_ascent :: real
  font_height :: real
  stride_for_width :: "u32 \<Rightarrow> u32"

text \<open>
  The first loop of \<^verbatim>\<open>draw_background\<close>: every buffer that is not busy and has the wrong
  size is unlinked and freed. The result is the list that remains and the buffers freed.
\<close>

primrec remove_unused :: "buffer list \<Rightarrow> u32 \<Rightarrow> u32 \<Rightarrow> u32 \<Rightarrow> buffer list \<times> buffer list" where
  "remove_unused [] w h stride = ([], [])"
| "remove_unused (x # xs) w h stride =
     (let (keep, gone) = remove_unused xs w h stride
      in if \<not> busy x \<and> (buf_width x \<noteq> w \<or> buf_height x \<noteq> h \<or> buf_stride x \<noteq> stride)
         then (keep, x # gone) else (x # keep, gone))"

text \<open>
  The second loop: the position of the first buffer that is not busy and has the right
  size, \<open>None\<close> when the loop ends with \<^verbatim>\<open>found\<close> still false.
\<close>

primrec find_buffer :: "buffer list \<Rightarrow> u32 \<Rightarrow> u32 \<Rightarrow> u32 \<Rightarrow> nat option" where
  "find_buffer [] w h stride = None"
| "find_buffer (x # xs) w h stride =
     (if \<not> busy x \<and> buf_width x = w \<and> buf_height x = h \<and> buf_stride x = stride
      then Some 0 else map_option Suc (find_buffer xs w h stride))"

text \<open>\<^verbatim>\<open>g_list_length\<close> returns a \<^verbatim>\<open>guint\<close>.\<close>

definition g_list_length :: "'a list \<Rightarrow> u32" where
  "g_list_length xs = of_nat (length xs)"

text \<open>
  Lines 312 to 320: the scroll offset after the clamp. The subtraction
  \<^verbatim>\<open>background->height - MENU_PADDING * 2\<close> is unsigned.
\<close>

definition clamp_scroll :: "nat \<Rightarrow> real \<Rightarrow> u32 \<Rightarrow> real \<Rightarrow> real" where
  "clamp_scroll entries row_height h y =
     (let total_height = real entries * row_height;
          max_y_scroll = total_height - real (unat (h - word_of_int (MENU_PADDING * 2)))
      in if max_y_scroll > 0 then min (max y 0) max_y_scroll else 0)"

text \<open>
  Lines 322 to 336: the loop over the application list, with the running \<^verbatim>\<open>y\<close>. One
  result per entry: the text operation when the row is painted, \<open>None\<close> when the row
  is outside the surface.
\<close>

primrec menu_rows :: "real \<Rightarrow> real \<Rightarrow> real \<Rightarrow> real \<Rightarrow> u32 \<Rightarrow> app_info list \<Rightarrow> draw_op option list" where
  "menu_rows y row_height ascent cy h [] = []"
| "menu_rows y row_height ascent cy h (app # rest) =
     (if y + row_height \<ge> 0 \<and> y \<le> real (unat h)
      then Some (Show_text app (if cy > y \<and> cy \<le> y + row_height then Cyan else Black)
                   (real_of_int MENU_PADDING) (y + ascent))
      else None)
     # menu_rows (y + row_height) row_height ascent cy h rest"

text \<open>
  Lines 267 to 295 of \<^verbatim>\<open>draw_background\<close>: the buffer to draw into. The result is the
  background with its list after the two loops (and the allocation), and the position
  of the chosen buffer in it; \<^verbatim>\<open>wl_list_insert\<close> links a new buffer at the head. When
  no fitting buffer is found and \<^verbatim>\<open>create_buffer\<close> returns \<^verbatim>\<open>NULL\<close>, the next statement,
  \<^verbatim>\<open>wl_list_insert(&background->buffers, &buffer->link)\<close>, writes through the null pointer.
\<close>

definition select_buffer :: "draw_env \<Rightarrow> background \<Rightarrow> error + (background \<times> nat)" where
  "select_buffer env b =
     (let stride = stride_for_width env (width b);
          (pool, gone) = remove_unused (buffers b) (width b) (height b) stride;
          b = b\<lparr>buffers := pool, freed := freed b @ gone\<rparr>
      in case find_buffer pool (width b) (height b) stride of
           Some i \<Rightarrow> Inr (b, i)
         | None \<Rightarrow>
             (case create_buffer (alloc env) (width b) (height b) stride
                     WL_SHM_FORMAT_XRGB8888 of
                Inl msg \<Rightarrow> Inl Null_dereference
              | Inr buffer \<Rightarrow> Inr (b\<lparr>buffers := buffer # pool\<rparr>, 0)))"

text \<open>
  Lines 297 to 347: the paint into the chosen buffer (at position \<open>i\<close>), the font
  extents cached on the background, the clamp of the scroll offset, and the attach,
  damage, frame and commit requests.
\<close>

definition paint_and_commit :: "draw_env \<Rightarrow> app_info list \<Rightarrow> background \<Rightarrow> nat \<Rightarrow> background" where
  "paint_and_commit env apps b i =
     (let ys = clamp_scroll (unat (g_list_length apps)) (font_height env) (height b) (y_scroll b);
          y = real_of_int MENU_PADDING - ys;
          ops = Fill_rectangle (width b) (height b) Grey
                # List.map_filter id
                    (menu_rows y (font_height env) (font_ascent env) (cursor_y b) (height b) apps);
          (s, buffer) = attach_buffer (surface b) ((buffers b ! i)\<lparr>buf_data := ops\<rparr>);
          s = s\<lparr>damage := Some (width b, height b),
                frame_callbacks := new_callback env # frame_callbacks s,
                commits := Suc (commits s)\<rparr>
      in b\<lparr>buffers := (buffers b)[i := buffer],
           extents_ascent := font_ascent env, extents_height := font_height env,
           y_scroll := ys, frame := Some (new_callback env), surface := s\<rparr>)"

text \<open>\<^verbatim>\<open>draw_background\<close>: the frame throttle, then the two parts above.\<close>

definition draw_background :: "draw_env \<Rightarrow> app_info list \<Rightarrow> background \<Rightarrow> error + background" where
  "draw_background env apps b =
     (if frame b \<noteq> None then Inr (b\<lparr>needs_draw := True\<rparr>)
      else case select_buffer env (b\<lparr>needs_draw := False\<rparr>) of
             Inl e \<Rightarrow> Inl e
           | Inr (b, i) \<Rightarrow> Inr (paint_and_commit env apps b i))"

section \<open>Handlers of the background surface\<close>

text \<open>
  \<^verbatim>\<open>background_frame_done\<close>. \<^verbatim>\<open>wl_callback_destroy\<close> takes the callback off the
  surface; called on \<^verbatim>\<open>NULL\<close> it reads through the null pointer.
\<close>

definition background_frame_done :: "draw_env \<Rightarrow> app_info list \<Rightarrow> background \<Rightarrow> error + background" where
  "background_frame_done env apps b =
     (case frame b of
        None \<Rightarrow> Inl Null_dereference
      | Some c \<Rightarrow>
          let s = (surface b)\<lparr>frame_callbacks := remove1 c (frame_callbacks (surface b))\<rparr>;
              b = b\<lparr>surface := s, frame := None\<rparr>
          in if needs_draw b then draw_background env apps b else Inr b)"

definition background_configure :: "draw_env \<Rightarrow> app_info list \<Rightarrow> u32 \<Rightarrow> u32 \<Rightarrow> background \<Rightarrow> error + background" where
  "background_configure env apps w h b = draw_background env apps (b\<lparr>width := w, height := h\<rparr>)"

definition background_cursor_motion :: "draw_env \<Rightarrow> app_info list \<Rightarrow> background \<Rightarrow> error + background" where
  "background_cursor_motion env apps b = draw_background env apps b"

definition background_cursor_enter :: "draw_env \<Rightarrow> app_info list \<Rightarrow> background \<Rightarrow> error + background" where
  "background_cursor_enter env apps b = draw_background env apps b"

definition background_cursor_leave :: "draw_env \<Rightarrow> app_info list \<Rightarrow> background \<Rightarrow> error + background" where
  "background_cursor_leave env apps b = draw_background env apps b"

definition background_pointer_axis :: "draw_env \<Rightarrow> app_info list \<Rightarrow> u32 \<Rightarrow> real \<Rightarrow> background \<Rightarrow> error + background" where
  "background_pointer_axis env apps axis v b =
     (if axis = WL_POINTER_AXIS_VERTICAL_SCROLL
      then draw_background env apps (b\<lparr>y_scroll := y_scroll b + v\<rparr>)
      else Inr b)"

subsection \<open>The button handler\<close>

text \<open>What a handler asks of the world outside the surface.\<close>

datatype effect =
  Launch app_info
  | Stderr string

text \<open>
  \<^verbatim>\<open>launch_app\<close>: one call of \<^verbatim>\<open>g_app_info_launch\<close>; \<open>launcher\<close> gives its error
  message when it fails.
\<close>

definition launch_app :: "(app_info \<Rightarrow> string option) \<Rightarrow> app_info \<Rightarrow> effect list" where
  "launch_app launcher app =
     Launch app #
     (case launcher app of
        None \<Rightarrow> []
      | Some msg \<Rightarrow>
          [Stderr (''Unable to launch '' @ [CHR 0x27] @ app_name app @ [CHR 0x27] @ '': '' @ msg
                   @ [CHR 0x0A])])"

text \<open>
  The conversion of a \<^verbatim>\<open>double\<close> to \<^verbatim>\<open>guint\<close> truncates towards zero, and is undefined
  when the truncated value is not a \<^verbatim>\<open>guint\<close>.
\<close>

definition double_to_guint :: "real \<Rightarrow> u32 option" where
  "double_to_guint x =
     (let t = (if x \<ge> 0 then \<lfloor>x\<rfloor> else \<lceil>x\<rceil>)
      in if 0 \<le> t \<and> t < 2 ^ 32 then Some (word_of_int t) else None)"

text \<open>
  \<^verbatim>\<open>guint menu_idx = menu_y / background->extents.height\<close>: a division by zero gives an
  infinity or a NaN, whose conversion is undefined.
\<close>

definition menu_idx_of :: "real \<Rightarrow> real \<Rightarrow> u32 option" where
  "menu_idx_of menu_y row_height =
     (if row_height = 0 then None else double_to_guint (menu_y / row_height))"

text \<open>\<^verbatim>\<open>g_list_nth_data\<close>: \<^verbatim>\<open>NULL\<close> when the position is off the end of the list.\<close>

fun g_list_nth_data :: "'a list \<Rightarrow> nat \<Rightarrow> 'a option" where
  "g_list_nth_data [] n = None"
| "g_list_nth_data (x # xs) 0 = Some x"
| "g_list_nth_data (x # xs) (Suc n) = g_list_nth_data xs n"

text \<open>\<^verbatim>\<open>background_pointer_button\<close>; the surface is not changed.\<close>

definition background_pointer_button ::
  "(app_info \<Rightarrow> string option) \<Rightarrow> app_info list \<Rightarrow> background \<Rightarrow> u32 \<Rightarrow> u32 \<Rightarrow> error + effect list" where
  "background_pointer_button launcher apps b button state =
     (if button = BTN_LEFT \<and> state = WL_POINTER_BUTTON_STATE_RELEASED \<and> extents_height b \<noteq> 0
      then
        let menu_y = cursor_y b + y_scroll b - real_of_int MENU_PADDING
        in if menu_y \<ge> 0
           then (case menu_idx_of menu_y (extents_height b) of
                   None \<Rightarrow> Inl Undefined_conversion
                 | Some menu_idx \<Rightarrow>
                     (case g_list_nth_data apps (unat menu_idx) of
                        Some app \<Rightarrow> Inr (launch_app launcher app)
                      | None \<Rightarrow> Inr []))
           else Inr []
      else Inr [])"

subsection \<open>The pointer router, for a seat whose focus is the background\<close>

text \<open>
  \<^verbatim>\<open>pointer_enter\<close>, \<^verbatim>\<open>pointer_leave\<close>, \<^verbatim>\<open>pointer_motion\<close>, \<^verbatim>\<open>pointer_axis\<close> and
  \<^verbatim>\<open>pointer_button\<close>, where the surface of the event (or of the seat's focus) is the
  background: they store the cursor position and call the handler of the surface when it
  is set. The focus field of the seat and the cursor image (\<^verbatim>\<open>set_cursor\<close>) are not state
  of the background and are left out.
\<close>

definition pointer_enter :: "draw_env \<Rightarrow> app_info list \<Rightarrow> real \<Rightarrow> real \<Rightarrow> background \<Rightarrow> error + background" where
  "pointer_enter env apps x y b =
     (let b = b\<lparr>cursor_x := x, cursor_y := y\<rparr>
      in case on_cursor_enter b of
           Some Background_cursor_enter \<Rightarrow> background_cursor_enter env apps b
         | _ \<Rightarrow> Inr b)"

definition pointer_leave :: "draw_env \<Rightarrow> app_info list \<Rightarrow> background \<Rightarrow> error + background" where
  "pointer_leave env apps b =
     (let b = b\<lparr>cursor_x := - 1, cursor_y := - 1\<rparr>
      in case on_cursor_leave b of
           Some Background_cursor_leave \<Rightarrow> background_cursor_leave env apps b
         | _ \<Rightarrow> Inr b)"

definition pointer_motion :: "draw_env \<Rightarrow> app_info list \<Rightarrow> real \<Rightarrow> real \<Rightarrow> background \<Rightarrow> error + background" where
  "pointer_motion env apps x y b =
     (let b = b\<lparr>cursor_x := x, cursor_y := y\<rparr>
      in case on_cursor_motion b of
           Some Background_cursor_motion \<Rightarrow> background_cursor_motion env apps b
         | _ \<Rightarrow> Inr b)"

definition pointer_axis :: "draw_env \<Rightarrow> app_info list \<Rightarrow> u32 \<Rightarrow> real \<Rightarrow> background \<Rightarrow> error + background" where
  "pointer_axis env apps axis v b =
     (case on_pointer_axis b of
        Some Background_pointer_axis \<Rightarrow> background_pointer_axis env apps axis v b
      | _ \<Rightarrow> Inr b)"

definition pointer_button ::
  "(app_info \<Rightarrow> string option) \<Rightarrow> app_info list \<Rightarrow> background \<Rightarrow> u32 \<Rightarrow> u32 \<Rightarrow> error + effect list" where
  "pointer_button launcher apps b button state =
     (case on_pointer_button b of
        Some Background_pointer_button \<Rightarrow> background_pointer_button launcher apps b button state
      | _ \<Rightarrow> Inr [])"

subsection \<open>Events on one background\<close>

text \<open>
  The events the display server delivers to one background: the shell's configure, the
  pointer events of a seat focused on it, the completion of a frame callback, and the
  release of a buffer (named by \<open>buf_id\<close>).
\<close>

datatype event =
  Configure u32 u32
  | Pointer_enter real real
  | Pointer_leave
  | Pointer_motion real real
  | Pointer_axis u32 real
  | Pointer_button u32 u32
  | Frame_done nat
  | Buffer_release nat

definition step ::
  "draw_env \<Rightarrow> (app_info \<Rightarrow> string option) \<Rightarrow> app_info list \<Rightarrow> event \<Rightarrow> background \<Rightarrow> error + background" where
  "step env launcher apps ev b =
     (case ev of
        Configure w h \<Rightarrow> background_configure env apps w h b
      | Pointer_enter x y \<Rightarrow> pointer_enter env apps x y b
      | Pointer_leave \<Rightarrow> pointer_leave env apps b
      | Pointer_motion x y \<Rightarrow> pointer_motion env apps x y b
      | Pointer_axis axis v \<Rightarrow> pointer_axis env apps axis v b
      | Pointer_button button state \<Rightarrow>
          (case pointer_button launcher apps b button state of
             Inl e \<Rightarrow> Inl e
           | Inr effects \<Rightarrow> Inr b)
      | Frame_done c \<Rightarrow> background_frame_done env apps b
      | Buffer_release p \<Rightarrow>
          Inr (b\<lparr>buffers := map (\<lambda>x. if buf_id x = p then buffer_release x else x) (buffers b)\<rparr>))"

text \<open>
  The server completes only a frame callback that exists, and releases only a buffer
  that exists.
\<close>

fun deliverable :: "event \<Rightarrow> background \<Rightarrow> bool" where
  "deliverable (Frame_done c) b = (c \<in> set (frame_callbacks (surface b)))"
| "deliverable (Buffer_release p) b = (p \<in> buf_id ` set (buffers b))"
| "deliverable ev b = True"

section \<open>Outputs\<close>

text \<open>
  The background \<^verbatim>\<open>output_done\<close> builds: zeroed by \<^verbatim>\<open>calloc\<close>, an empty buffer list, a
  new surface, and the fields the function assigns.
\<close>

definition new_background :: background where
  "new_background =
     \<lparr>configure = Some Background_configure, cursor = Some ''left_ptr'',
      cursor_x = - 1, cursor_y = - 1,
      on_cursor_motion = Some Background_cursor_motion,
      on_cursor_enter = Some Background_cursor_enter,
      on_cursor_leave = Some Background_cursor_leave,
      on_pointer_button = Some Background_pointer_button,
      on_pointer_axis = Some Background_pointer_axis,
      on_pointer_frame = None,
      surface = \<lparr>attached = None, damage = None, frame_callbacks = [], commits = 0\<rparr>,
      buffers = [], width = 0, height = 0, y_scroll = 0, frame = None, needs_draw = False,
      extents_ascent = 0, extents_height = 0, freed = []\<rparr>"

text \<open>The request \<^verbatim>\<open>weston_desktop_shell_set_background\<close>, with the surface it registers.\<close>

datatype shell_request = Set_background wl_surface

text \<open>\<^verbatim>\<open>output_mode\<close>; the width and height arrive as \<^verbatim>\<open>int32_t\<close> and are stored unsigned.\<close>

definition output_mode :: "output_t \<Rightarrow> u32 \<Rightarrow> u32 \<Rightarrow> u32 \<Rightarrow> output_t" where
  "output_mode out flags w h =
     (if flags AND WL_OUTPUT_MODE_CURRENT \<noteq> 0 then out\<lparr>out_width := w, out_height := h\<rparr>
      else out)"

text \<open>
  \<^verbatim>\<open>output_done\<close>, with the requests it sends to the shell. The back-reference
  \<^verbatim>\<open>b->output\<close> is the position of the background inside the output.
\<close>

definition output_done :: "output_t \<Rightarrow> output_t \<times> shell_request list" where
  "output_done out =
     (case out_background out of
        None \<Rightarrow> (out\<lparr>out_background := Some new_background\<rparr>,
                  [Set_background (surface new_background)])
      | Some b \<Rightarrow> (out, []))"

text \<open>
  The states of a background that a run of the event loop can reach: from the background
  \<^verbatim>\<open>output_done\<close> builds, by any deliverable event whose handler returns, whatever the
  handler takes from outside.
\<close>

inductive reachable :: "app_info list \<Rightarrow> background \<Rightarrow> bool" for apps where
  reachable_new: "reachable apps new_background"
| reachable_step:
    "reachable apps b \<Longrightarrow> deliverable ev b \<Longrightarrow> step env launcher apps ev b = Inr b'
     \<Longrightarrow> reachable apps b'"

section \<open>The application list\<close>

text \<open>
  \<^verbatim>\<open>g_strcmp0\<close> on two names: the sign of the bytewise comparison (\<^verbatim>\<open>strcmp\<close> compares
  unsigned bytes; the order of \<open>string\<close> is the lexicographic order of the byte values).
\<close>

definition g_strcmp0 :: "string \<Rightarrow> string \<Rightarrow> int" where
  "g_strcmp0 a b = (if a < b then - 1 else if a = b then 0 else 1)"

definition sort_apps :: "app_info \<Rightarrow> app_info \<Rightarrow> int" where
  "sort_apps a b = g_strcmp0 (app_name a) (app_name b)"

text \<open>
  \<^verbatim>\<open>g_list_insert_sorted\<close> is GLib's (\<^verbatim>\<open>glib/glist.c\<close>), not this repository's: it walks
  the list while the comparison of the new element with the current one is positive, and
  links the new element in front of the first element where it is not, or at the end.
\<close>

fun g_list_insert_sorted :: "'a list \<Rightarrow> 'a \<Rightarrow> ('a \<Rightarrow> 'a \<Rightarrow> int) \<Rightarrow> 'a list" where
  "g_list_insert_sorted [] d func = [d]"
| "g_list_insert_sorted (x # xs) d func =
     (if func d x > 0 then x # g_list_insert_sorted xs d func else d # x # xs)"

text \<open>
  The loop of \<^verbatim>\<open>main\<close> over the list \<^verbatim>\<open>g_app_info_get_all\<close> returns; \<open>should_show\<close> is
  \<^verbatim>\<open>g_app_info_should_show\<close>.
\<close>

fun insert_apps :: "(app_info \<Rightarrow> bool) \<Rightarrow> app_info list \<Rightarrow> app_info list \<Rightarrow> app_info list" where
  "insert_apps should_show [] application_list = application_list"
| "insert_apps should_show (app # rest) application_list =
     insert_apps should_show rest
       (if should_show app then g_list_insert_sorted application_list app sort_apps
        else application_list)"

definition build_application_list :: "(app_info \<Rightarrow> bool) \<Rightarrow> app_info list \<Rightarrow> app_info list" where
  "build_application_list should_show app_list = insert_apps should_show app_list []"

section \<open>The event loop\<close>

text \<open>
  The dispatch loop of \<^verbatim>\<open>main\<close>, on the events of one background: each event is
  handled to completion before the next, every event comes with what its handler takes
  from outside, and an event the server cannot send in the current state is not delivered.
  The run stops at the first handler that leaves defined behaviour.
\<close>

fun run ::
  "(app_info \<Rightarrow> string option) \<Rightarrow> app_info list \<Rightarrow> (draw_env \<times> event) list \<Rightarrow> background
   \<Rightarrow> error + background" where
  "run launcher apps [] b = Inr b"
| "run launcher apps ((env, ev) # rest) b =
     (if deliverable ev b
      then (case step env launcher apps ev b of
              Inl e \<Rightarrow> Inl e
            | Inr b' \<Rightarrow> run launcher apps rest b')
      else run launcher apps rest b)"

text \<open>The events whose handler ends in a call of \<^verbatim>\<open>draw_background\<close>.\<close>

fun redraw_request :: "event \<Rightarrow> bool" where
  "redraw_request (Configure w h) = True"
| "redraw_request (Pointer_enter x y) = True"
| "redraw_request Pointer_leave = True"
| "redraw_request (Pointer_motion x y) = True"
| "redraw_request (Pointer_axis axis v) = (axis = WL_POINTER_AXIS_VERTICAL_SCROLL)"
| "redraw_request ev = False"

section \<open>Notions of the specification\<close>

text \<open>The size test both loops of \<^verbatim>\<open>draw_background\<close> apply to a buffer.\<close>

definition fits :: "buffer \<Rightarrow> u32 \<Rightarrow> u32 \<Rightarrow> u32 \<Rightarrow> bool" where
  "fits x w h stride = (buf_width x = w \<and> buf_height x = h \<and> buf_stride x = stride)"

text \<open>
  The specification's \<open>hit_test\<close>, from its words: \<open>menu_y\<close> is the local y plus the
  scroll offset minus the padding; none when it is negative; otherwise the index is the
  floor of \<open>menu_y\<close> over the row height, valid only below the number of entries.
\<close>

definition hit_test :: "nat \<Rightarrow> real \<Rightarrow> real \<Rightarrow> real \<Rightarrow> nat option" where
  "hit_test entries row_height scroll_offset local_y =
     (let menu_y = local_y + scroll_offset - real_of_int MENU_PADDING
      in if menu_y < 0 then None
         else let index = \<lfloor>menu_y / row_height\<rfloor>
              in if index < int entries then Some (nat index) else None)"

text \<open>The applications a list of effects launches, in order.\<close>

primrec launches :: "effect list \<Rightarrow> app_info list" where
  "launches [] = []"
| "launches (e # es) = (case e of Launch app \<Rightarrow> app # launches es | Stderr msg \<Rightarrow> launches es)"

text \<open>The specification's \<open>row_y\<close>: the top of row \<open>index\<close>.\<close>

definition row_y :: "background \<Rightarrow> nat \<Rightarrow> real" where
  "row_y b index = real_of_int MENU_PADDING - y_scroll b + real index * extents_height b"

text \<open>
  The rows of the renderer's loop for the scroll offset, extents, cursor and height a
  background holds (after a draw these are the values that draw used), and whether the
  row of entry \<open>i\<close> is painted in the highlight colour.
\<close>

definition painted_rows :: "app_info list \<Rightarrow> background \<Rightarrow> draw_op option list" where
  "painted_rows apps b =
     menu_rows (real_of_int MENU_PADDING - y_scroll b) (extents_height b) (extents_ascent b)
       (cursor_y b) (height b) apps"

definition highlighted :: "app_info list \<Rightarrow> background \<Rightarrow> nat \<Rightarrow> bool" where
  "highlighted apps b i =
     (i < length apps \<and>
      (case painted_rows apps b ! i of
         Some (Show_text app c x y) \<Rightarrow> c = Cyan
       | _ \<Rightarrow> False))"

text \<open>
  The frame throttle: the callbacks alive on the surface are exactly the one the
  background holds in \<open>frame\<close>, and a latched redraw means a callback is outstanding.
\<close>

definition callbacks_match :: "background \<Rightarrow> bool" where
  "callbacks_match b =
     (frame_callbacks (surface b) = (case frame b of None \<Rightarrow> [] | Some c \<Rightarrow> [c]))"

definition throttle_inv :: "background \<Rightarrow> bool" where
  "throttle_inv b = (callbacks_match b \<and> (needs_draw b \<longrightarrow> frame b \<noteq> None))"

text \<open>
  The specification's scroll range: the total height is the entry count times the row
  height, the visible height is the surface height minus twice the padding.
\<close>

definition scroll_in_range :: "app_info list \<Rightarrow> background \<Rightarrow> bool" where
  "scroll_in_range apps b =
     (let total_height = real (length apps) * extents_height b;
          visible_height = real (unat (height b)) - 2 * real_of_int MENU_PADDING
      in 0 \<le> y_scroll b \<and> y_scroll b \<le> max 0 (total_height - visible_height) \<and>
         (total_height \<le> visible_height \<longrightarrow> y_scroll b = 0))"

text \<open>
  What one handler may do to the buffer pool: every busy buffer stays in the pool as it
  is; a buffer is freed only if it was in the pool, not busy and of the wrong size; and
  a draw (a commit) goes to a buffer of the pool that is attached and busy afterwards,
  and was either a buffer of the pool that was not busy and has the right size, or was
  allocated by this draw when the pool had none.
\<close>

definition pool_step :: "draw_env \<Rightarrow> background \<Rightarrow> background \<Rightarrow> bool" where
  "pool_step env b b' =
     (let w = width b'; h = height b'; s = stride_for_width env w
      in (\<forall>x\<in>set (buffers b). busy x \<longrightarrow> x \<in> set (buffers b')) \<and>
         set (freed b') \<subseteq> set (freed b) \<union> {x \<in> set (buffers b). \<not> busy x \<and> \<not> fits x w h s} \<and>
         (commits (surface b') \<noteq> commits (surface b) \<longrightarrow>
            (\<exists>t\<in>set (buffers b').
               attached (surface b') = Some (buf_id t) \<and> busy t \<and> fits t w h s \<and>
               ((\<exists>x\<in>set (buffers b). \<not> busy x \<and> fits x w h s \<and>
                    t = x\<lparr>busy := True, buf_data := buf_data t\<rparr>) \<or>
                (alloc env = Allocated (buf_id t) \<and>
                 (\<forall>x\<in>set (buffers b). busy x \<or> \<not> fits x w h s))))))"

text \<open>The scroll offset is in range whenever no redraw is latched.\<close>

definition scroll_inv :: "app_info list \<Rightarrow> background \<Rightarrow> bool" where
  "scroll_inv apps b = (\<not> needs_draw b \<longrightarrow> scroll_in_range apps b)"

section \<open>Example inputs\<close>

definition example_apps :: "app_info list" where
  "example_apps =
     [\<lparr>app_name = ''Box'', app_handle = 2\<rparr>, \<lparr>app_name = ''Zed'', app_handle = 0\<rparr>,
      \<lparr>app_name = ''apple'', app_handle = 1\<rparr>]"

definition example_env :: "nat \<Rightarrow> draw_env" where
  "example_env n =
     \<lparr>alloc = Allocated n, new_callback = n, font_ascent = 18, font_height = 23,
      stride_for_width = (\<lambda>w. 4 * w)\<rparr>"

definition busy_buffer :: buffer where
  "busy_buffer =
     \<lparr>buf_id = 1, busy = True, buf_width = 800, buf_height = 600, buf_stride = 3200,
      buf_format = WL_SHM_FORMAT_XRGB8888, buf_size = 1920000, buf_data = []\<rparr>"

section \<open>Properties\<close>

subsection \<open>Library facts about the loops\<close>

lemma remove_unused_filter:
  "remove_unused xs w h s =
     (filter (\<lambda>x. busy x \<or> fits x w h s) xs, filter (\<lambda>x. \<not> busy x \<and> \<not> fits x w h s) xs)"
  by (induction xs) (auto simp: fits_def)

lemma find_buffer_Some:
  "find_buffer xs w h s = Some i \<Longrightarrow> i < length xs \<and> \<not> busy (xs ! i) \<and> fits (xs ! i) w h s"
  by (induction xs arbitrary: i) (auto simp: fits_def split: if_splits)

lemma find_buffer_None:
  "find_buffer xs w h s = None \<Longrightarrow> \<forall>x\<in>set xs. busy x \<or> \<not> fits x w h s"
  by (induction xs) (auto simp: fits_def split: if_splits)

lemma g_list_nth_data_nth:
  "g_list_nth_data xs n = (if n < length xs then Some (xs ! n) else None)"
  by (induction xs n rule: g_list_nth_data.induct) auto

lemma double_to_guint_nonneg:
  assumes "0 \<le> x" "x < 2 ^ 32"
  shows "double_to_guint x = Some (word_of_int \<lfloor>x\<rfloor>)"
    and "unat (word_of_int \<lfloor>x\<rfloor> :: u32) = nat \<lfloor>x\<rfloor>"
proof -
  have f0: "0 \<le> \<lfloor>x\<rfloor>" using assms by simp
  have f1: "\<lfloor>x\<rfloor> < 2 ^ 32" using assms by (simp add: floor_less_iff)
  show "double_to_guint x = Some (word_of_int \<lfloor>x\<rfloor>)"
    using assms f0 f1 by (simp add: double_to_guint_def)
  show "unat (word_of_int \<lfloor>x\<rfloor> :: u32) = nat \<lfloor>x\<rfloor>"
    using f0 f1 by (simp add: unat_eq_nat_uint uint_word_of_int take_bit_int_eq_self)
qed

lemma launches_launch_app: "launches (launch_app launcher app) = [app]"
  by (simp add: launch_app_def split: option.splits)

lemma button_hit_test:
  assumes "0 < extents_height b"
    and "(cursor_y b + y_scroll b - real_of_int MENU_PADDING) / extents_height b < 2 ^ 32"
  shows "background_pointer_button launcher apps b button state =
     Inr (if button = BTN_LEFT \<and> state = WL_POINTER_BUTTON_STATE_RELEASED
          then (case hit_test (length apps) (extents_height b) (y_scroll b) (cursor_y b) of
                  None \<Rightarrow> []
                | Some index \<Rightarrow> launch_app launcher (apps ! index))
          else [])"
proof (cases "button = BTN_LEFT \<and> state = WL_POINTER_BUTTON_STATE_RELEASED")
  case False
  then show ?thesis by (auto simp: background_pointer_button_def)
next
  case True
  define my where "my = cursor_y b + y_scroll b - real_of_int MENU_PADDING"
  show ?thesis
  proof (cases "my < 0")
    case neg: True
    then show ?thesis using True assms(1)
      by (simp add: background_pointer_button_def hit_test_def my_def)
  next
    case nonneg: False
    then have q: "0 \<le> my / extents_height b" using assms(1) by simp
    have r: "my / extents_height b < 2 ^ 32" using assms(2) by (simp add: my_def)
    note conv = double_to_guint_nonneg [OF q r]
    have "background_pointer_button launcher apps b button state =
        (case g_list_nth_data apps (nat \<lfloor>my / extents_height b\<rfloor>) of
           Some app \<Rightarrow> Inr (launch_app launcher app) | None \<Rightarrow> Inr [])"
      using True nonneg assms(1) conv
      by (simp add: background_pointer_button_def menu_idx_of_def my_def)
    moreover have "0 \<le> \<lfloor>my / extents_height b\<rfloor>" using q by simp
    ultimately show ?thesis using True nonneg
      by (auto simp: hit_test_def my_def g_list_nth_data_nth Let_def nat_less_iff)
  qed
qed


lemma menu_rows_length: "length (menu_rows y rh asc cy h apps) = length apps"
  by (induction apps arbitrary: y) auto

lemma menu_rows_nth:
  "i < length apps \<Longrightarrow>
   menu_rows y rh asc cy h apps ! i =
     (if (y + real i * rh) + rh \<ge> 0 \<and> y + real i * rh \<le> real (unat h)
      then Some (Show_text (apps ! i)
                   (if cy > y + real i * rh \<and> cy \<le> (y + real i * rh) + rh then Cyan else Black)
                   (real_of_int MENU_PADDING) ((y + real i * rh) + asc))
      else None)"
proof (induction apps arbitrary: y i)
  case Nil
  then show ?case by simp
next
  case (Cons a apps)
  show ?case
  proof (cases i)
    case 0
    then show ?thesis by simp
  next
    case (Suc j)
    then have "j < length apps" using Cons.prems by simp
    from Cons.IH [OF this, of "y + rh"] Suc show ?thesis
      by (simp add: algebra_simps)
  qed
qed

lemma highlighted_iff:
  "highlighted apps b i \<longleftrightarrow>
     i < length apps \<and> row_y b i + extents_height b \<ge> 0 \<and> row_y b i \<le> real (unat (height b)) \<and>
     row_y b i < cursor_y b \<and> cursor_y b \<le> row_y b i + extents_height b"
  by (cases "i < length apps")
    (auto simp: highlighted_def painted_rows_def menu_rows_nth row_y_def split: if_splits)

lemma button_in_row:
  assumes H: "0 < extents_height b" and i: "i < length apps" and n: "length apps < 2 ^ 32"
    and lo: "row_y b i \<le> cursor_y b" and hi: "cursor_y b < row_y b i + extents_height b"
  shows "background_pointer_button launcher apps b BTN_LEFT WL_POINTER_BUTTON_STATE_RELEASED =
           Inr (launch_app launcher (apps ! i))"
proof -
  define my where "my = cursor_y b + y_scroll b - real_of_int MENU_PADDING"
  define rh where "rh = extents_height b"
  have a: "real i * rh \<le> my" using lo by (simp add: my_def rh_def row_y_def)
  have b: "my < (real i + 1) * rh" using hi by (simp add: my_def rh_def row_y_def algebra_simps)
  have rh: "0 < rh" using H by (simp add: rh_def)
  have q1: "real i \<le> my / rh" using a rh by (simp add: pos_le_divide_eq)
  have q2: "my / rh < real i + 1" using b rh by (simp add: pos_divide_less_eq)
  have fl: "\<lfloor>my / rh\<rfloor> = int i" using q1 q2 by (simp add: floor_eq_iff)
  have "real i + 1 \<le> 2 ^ 32"
  proof -
    have "i + 1 \<le> 2 ^ 32" using i n by simp
    then have "real (i + 1) \<le> real (2 ^ 32)" by (rule of_nat_mono)
    then show ?thesis by simp
  qed
  then have rng: "(cursor_y b + y_scroll b - real_of_int MENU_PADDING) / extents_height b < 2 ^ 32"
    using q2 by (simp add: my_def rh_def)
  have "0 \<le> my" using a rh by (meson mult_nonneg_nonneg of_nat_0_le_iff order_less_imp_le order_trans)
  then have "hit_test (length apps) (extents_height b) (y_scroll b) (cursor_y b) = Some i"
    using fl i by (simp add: hit_test_def my_def rh_def)
  then show ?thesis using button_hit_test [OF H rng, of launcher apps BTN_LEFT WL_POINTER_BUTTON_STATE_RELEASED]
    by simp
qed

subsection \<open>What a draw does\<close>

lemma draw_background_pending:
  "frame b \<noteq> None \<Longrightarrow> draw_background env apps b = Inr (b\<lparr>needs_draw := True\<rparr>)"
  by (simp add: draw_background_def)

lemma draw_background_idle:
  assumes "frame b = None" and "draw_background env apps b = Inr b'"
  obtains b1 i where "select_buffer env (b\<lparr>needs_draw := False\<rparr>) = Inr (b1, i)"
    and "b' = paint_and_commit env apps b1 i"
  using assms by (auto simp: draw_background_def split: sum.splits)

lemma select_buffer_cases:
  assumes "select_buffer env b = Inr (b1, i)"
  defines "keep \<equiv> filter (\<lambda>x. busy x \<or> fits x (width b) (height b) (stride_for_width env (width b)))
                     (buffers b)"
  shows "\<exists>pool.
           b1 = b\<lparr>buffers := pool,
                  freed := freed b @ filter (\<lambda>x. \<not> busy x \<and>
                      \<not> fits x (width b) (height b) (stride_for_width env (width b))) (buffers b)\<rparr> \<and>
           (pool = keep \<and>
              find_buffer keep (width b) (height b) (stride_for_width env (width b)) = Some i
            \<or> (\<exists>p. alloc env = Allocated p \<and> i = 0 \<and>
                  find_buffer keep (width b) (height b) (stride_for_width env (width b)) = None \<and>
                  pool = \<lparr>buf_id = p, busy = False, buf_width = width b, buf_height = height b,
                          buf_stride = stride_for_width env (width b),
                          buf_format = WL_SHM_FORMAT_XRGB8888,
                          buf_size = ucast (height b * stride_for_width env (width b)),
                          buf_data = []\<rparr> # keep))"
  using assms(1) unfolding keep_def
  by (auto simp: select_buffer_def remove_unused_filter Let_def create_buffer_def
      split: option.splits sum.splits alloc_result.splits)

lemma select_buffer_fields:
  assumes "select_buffer env b = Inr (b1, i)"
  shows "frame b1 = frame b" "needs_draw b1 = needs_draw b" "surface b1 = surface b"
    "width b1 = width b" "height b1 = height b" "y_scroll b1 = y_scroll b"
    "cursor_y b1 = cursor_y b"
  using select_buffer_cases [OF assms] by auto

lemma paint_and_commit_fields:
  "frame (paint_and_commit env apps b i) = Some (new_callback env)"
  "needs_draw (paint_and_commit env apps b i) = needs_draw b"
  "frame_callbacks (surface (paint_and_commit env apps b i)) =
     new_callback env # frame_callbacks (surface b)"
  "commits (surface (paint_and_commit env apps b i)) = Suc (commits (surface b))"
  "attached (surface (paint_and_commit env apps b i)) = Some (buf_id (buffers b ! i))"
  "width (paint_and_commit env apps b i) = width b"
  "height (paint_and_commit env apps b i) = height b"
  "cursor_y (paint_and_commit env apps b i) = cursor_y b"
  "freed (paint_and_commit env apps b i) = freed b"
  "extents_height (paint_and_commit env apps b i) = font_height env"
  "extents_ascent (paint_and_commit env apps b i) = font_ascent env"
  "y_scroll (paint_and_commit env apps b i) =
     clamp_scroll (unat (g_list_length apps)) (font_height env) (height b) (y_scroll b)"
  by (simp_all add: paint_and_commit_def attach_buffer_def Let_def)

lemma paint_and_commit_buffers:
  "buffers (paint_and_commit env apps b i) =
     (buffers b)[i := (buffers b ! i)\<lparr>buf_data :=
         Fill_rectangle (width b) (height b) Grey #
         List.map_filter id (painted_rows apps (paint_and_commit env apps b i)),
       busy := True\<rparr>]"
  by (simp add: paint_and_commit_def attach_buffer_def Let_def painted_rows_def)

lemma draw_background_total:
  "alloc env = Allocated p \<Longrightarrow> \<exists>b'. draw_background env apps b = Inr b'"
  by (auto simp: draw_background_def select_buffer_def remove_unused_filter Let_def
      create_buffer_def split: option.splits sum.splits prod.splits)

subsection \<open>The frame throttle is an invariant\<close>

lemma draw_background_frame:
  assumes "frame b = None" and "draw_background env apps b = Inr b'"
  shows "frame b' = Some (new_callback env)" "\<not> needs_draw b'"
    "frame_callbacks (surface b') = new_callback env # frame_callbacks (surface b)"
    "commits (surface b') = Suc (commits (surface b))"
  using assms
  by (auto elim!: draw_background_idle simp: paint_and_commit_fields select_buffer_fields)

lemma draw_background_inv:
  assumes "callbacks_match b" and "draw_background env apps b = Inr b'"
  shows "throttle_inv b'"
proof (cases "frame b")
  case None
  from draw_background_frame [OF None assms(2)] assms(1) None show ?thesis
    by (simp add: throttle_inv_def callbacks_match_def)
next
  case (Some c)
  then have "b' = b\<lparr>needs_draw := True\<rparr>" using assms(2) by (simp add: draw_background_def)
  then show ?thesis using assms(1) Some by (simp add: throttle_inv_def callbacks_match_def)
qed

lemma frame_done_inv:
  assumes "throttle_inv b" and "background_frame_done env apps b = Inr b'"
  shows "throttle_inv b'"
proof (cases "frame b")
  case None
  then show ?thesis using assms(2) by (simp add: background_frame_done_def)
next
  case (Some c)
  define b1 where "b1 = b\<lparr>surface := (surface b)\<lparr>frame_callbacks := remove1 c (frame_callbacks (surface b))\<rparr>, frame := None\<rparr>"
  have cm: "callbacks_match b1" using assms(1) Some
    by (simp add: b1_def throttle_inv_def callbacks_match_def)
  show ?thesis
  proof (cases "needs_draw b")
    case True
    then have "draw_background env apps b1 = Inr b'" using assms(2) Some
      by (simp add: background_frame_done_def b1_def Let_def)
    then show ?thesis using cm by (rule draw_background_inv [rotated])
  next
    case False
    then have "b' = b1" using assms(2) Some
      by (simp add: background_frame_done_def b1_def Let_def)
    then show ?thesis using cm False by (simp add: throttle_inv_def b1_def)
  qed
qed

lemma step_inv:
  assumes "throttle_inv b" and "step env launcher apps ev b = Inr b'"
  shows "throttle_inv b'"
proof (cases ev)
  case (Configure w h)
  have "callbacks_match (b\<lparr>width := w, height := h\<rparr>)"
    using assms(1) by (simp add: throttle_inv_def callbacks_match_def)
  then show ?thesis using assms(2) Configure
    by (auto simp: step_def background_configure_def intro: draw_background_inv)
next
  case (Pointer_enter x y)
  have "callbacks_match (b\<lparr>cursor_x := x, cursor_y := y\<rparr>)"
    using assms(1) by (simp add: throttle_inv_def callbacks_match_def)
  moreover have "throttle_inv (b\<lparr>cursor_x := x, cursor_y := y\<rparr>)"
    using assms(1) by (simp add: throttle_inv_def callbacks_match_def)
  ultimately show ?thesis using assms(2) Pointer_enter
    by (auto simp: step_def pointer_enter_def background_cursor_enter_def Let_def
        split: option.splits handler.splits intro: draw_background_inv)
next
  case Pointer_leave
  have "callbacks_match (b\<lparr>cursor_x := - 1, cursor_y := - 1\<rparr>)"
    using assms(1) by (simp add: throttle_inv_def callbacks_match_def)
  moreover have "throttle_inv (b\<lparr>cursor_x := - 1, cursor_y := - 1\<rparr>)"
    using assms(1) by (simp add: throttle_inv_def callbacks_match_def)
  ultimately show ?thesis using assms(2) Pointer_leave
    by (auto simp: step_def pointer_leave_def background_cursor_leave_def Let_def
        split: option.splits handler.splits intro: draw_background_inv)
next
  case (Pointer_motion x y)
  have "callbacks_match (b\<lparr>cursor_x := x, cursor_y := y\<rparr>)"
    using assms(1) by (simp add: throttle_inv_def callbacks_match_def)
  moreover have "throttle_inv (b\<lparr>cursor_x := x, cursor_y := y\<rparr>)"
    using assms(1) by (simp add: throttle_inv_def callbacks_match_def)
  ultimately show ?thesis using assms(2) Pointer_motion
    by (auto simp: step_def pointer_motion_def background_cursor_motion_def Let_def
        split: option.splits handler.splits intro: draw_background_inv)
next
  case (Pointer_axis axis v)
  have "callbacks_match (b\<lparr>y_scroll := y_scroll b + v\<rparr>)"
    using assms(1) by (simp add: throttle_inv_def callbacks_match_def)
  then show ?thesis using assms Pointer_axis
    by (auto simp: step_def pointer_axis_def background_pointer_axis_def
        split: option.splits handler.splits if_splits intro: draw_background_inv)
next
  case (Pointer_button button state)
  then show ?thesis using assms by (auto simp: step_def split: sum.splits)
next
  case (Frame_done c)
  then show ?thesis using assms by (auto simp: step_def intro: frame_done_inv)
next
  case (Buffer_release p)
  then show ?thesis using assms by (auto simp: step_def throttle_inv_def callbacks_match_def)
qed

lemma reachable_inv: "reachable apps b \<Longrightarrow> throttle_inv b"
proof (induction rule: reachable.induct)
  case reachable_new
  show ?case by (simp add: throttle_inv_def callbacks_match_def new_background_def)
next
  case (reachable_step b ev env launcher b')
  then show ?case by (blast intro: step_inv)
qed

subsection \<open>The clamp\<close>

lemma unat_sub_padding: "real (unat h) - 20 \<le> real (unat (h - 20 :: u32))"
proof (cases "20 \<le> unat h")
  case True
  then have "(20 :: u32) \<le> h" by (simp add: word_le_nat_alt)
  then have "unat (h - 20) = unat h - 20" by (simp add: unat_sub)
  then have "real (unat (h - 20)) = real (unat h - 20)" by (simp only:)
  also have "\<dots> = real (unat h) - 20" using True by (simp del: of_nat_unat)
  finally show ?thesis by (simp del: of_nat_unat)
next
  case False
  then have "real (unat h) < 20" by (simp del: of_nat_unat)
  moreover have "0 \<le> real (unat (h - 20))" by (simp del: of_nat_unat)
  ultimately show ?thesis by (simp del: of_nat_unat)
qed

lemma clamp_scroll_in_range:
  assumes "length apps < 2 ^ 32"
  shows "0 \<le> clamp_scroll (unat (g_list_length apps)) rh h y \<and>
         clamp_scroll (unat (g_list_length apps)) rh h y
           \<le> max 0 (real (length apps) * rh - (real (unat h) - 20)) \<and>
         (real (length apps) * rh \<le> real (unat h) - 20 \<longrightarrow>
            clamp_scroll (unat (g_list_length apps)) rh h y = 0)"
proof -
  have "unat (of_nat (length apps) :: u32) = length apps"
    using assms(1) by (simp add: unat_of_nat)
  then show ?thesis using unat_sub_padding [of h]
    by (auto simp: clamp_scroll_def g_list_length_def MENU_PADDING_def Let_def simp del: of_nat_unat)
qed

subsection \<open>The buffer pool across a draw\<close>

lemma in_set_update_other:
  assumes "x \<in> set xs" and "x \<noteq> xs ! i"
  shows "x \<in> set (xs[i := t])"
proof -
  from assms(1) obtain j where j: "j < length xs" "xs ! j = x" by (auto simp: in_set_conv_nth)
  with assms(2) have "j \<noteq> i" by auto
  then have "xs[i := t] ! j = x" using j by simp
  moreover have "j < length (xs[i := t])" using j by simp
  ultimately show ?thesis by (metis nth_mem)
qed

lemma pool_step_same:
  assumes "buffers b' = buffers b" "freed b' = freed b" "commits (surface b') = commits (surface b)"
  shows "pool_step env b b'"
  using assms by (simp add: pool_step_def)

lemma pool_step_cong:
  assumes "pool_step env b0 b'"
    and "buffers b0 = buffers b" "freed b0 = freed b" "commits (surface b0) = commits (surface b)"
  shows "pool_step env b b'"
  using assms by (simp add: pool_step_def)

lemma draw_background_pool:
  assumes "draw_background env apps b = Inr b'"
  shows "pool_step env b b'"
proof (cases "frame b")
  case (Some c)
  then have "b' = b\<lparr>needs_draw := True\<rparr>" using assms by (simp add: draw_background_def)
  then show ?thesis by (simp add: pool_step_same)
next
  case None
  define w where "w = width b"
  define h where "h = height b"
  define s where "s = stride_for_width env (width b)"
  define keep where "keep = filter (\<lambda>x. busy x \<or> fits x w h s) (buffers b)"
  from draw_background_idle [OF None assms] obtain b1 i where
    sb: "select_buffer env (b\<lparr>needs_draw := False\<rparr>) = Inr (b1, i)"
    and b': "b' = paint_and_commit env apps b1 i" by blast
  from select_buffer_cases [OF sb] obtain pool where
    b1: "buffers b1 = pool" "freed b1 = freed b @ filter (\<lambda>x. \<not> busy x \<and> \<not> fits x w h s) (buffers b)"
      "width b1 = width b" "height b1 = height b" "commits (surface b1) = commits (surface b)"
    and sel: "pool = keep \<and> find_buffer keep w h s = Some i
      \<or> (\<exists>p. alloc env = Allocated p \<and> i = 0 \<and> find_buffer keep w h s = None \<and>
           pool = \<lparr>buf_id = p, busy = False, buf_width = w, buf_height = h, buf_stride = s,
                   buf_format = WL_SHM_FORMAT_XRGB8888, buf_size = ucast (h * s), buf_data = []\<rparr> # keep)"
    unfolding w_def h_def s_def keep_def by auto
  define ops where "ops = Fill_rectangle (width b1) (height b1) Grey #
      List.map_filter id (painted_rows apps (paint_and_commit env apps b1 i))"
  define t where "t = (pool ! i)\<lparr>buf_data := ops, busy := True\<rparr>"
  have bufs: "buffers b' = pool[i := t]"
    using b1(1) unfolding t_def b' ops_def by (simp add: paint_and_commit_buffers)
  have att: "attached (surface b') = Some (buf_id (pool ! i))"
    using b1(1) by (simp add: b' paint_and_commit_fields)
  have fr: "freed b' = freed b @ filter (\<lambda>x. \<not> busy x \<and> \<not> fits x w h s) (buffers b)"
    using b1(2) by (simp add: b' paint_and_commit_fields)
  have wh: "width b' = width b" "height b' = height b" "commits (surface b') \<noteq> commits (surface b)"
    using b1 by (simp_all add: b' paint_and_commit_fields)
  have sel': "i < length pool \<and> \<not> busy (pool ! i) \<and> fits (pool ! i) w h s"
    using sel find_buffer_Some [of keep w h s i] by (auto simp: fits_def)
  have keep_busy: "\<forall>x\<in>set (buffers b). busy x \<longrightarrow> x \<in> set pool"
    using sel by (auto simp: keep_def)
  have p1: "\<forall>x\<in>set (buffers b). busy x \<longrightarrow> x \<in> set (buffers b')"
  proof (intro ballI impI)
    fix x assume "x \<in> set (buffers b)" "busy x"
    then have "x \<in> set pool" using keep_busy by blast
    moreover have "x \<noteq> pool ! i" using sel' \<open>busy x\<close> by auto
    ultimately show "x \<in> set (buffers b')" unfolding bufs by (rule in_set_update_other)
  qed
  have p2: "set (freed b') \<subseteq> set (freed b) \<union> {x \<in> set (buffers b). \<not> busy x \<and> \<not> fits x w h s}"
    using fr by auto
  have tin: "t \<in> set (buffers b')" unfolding bufs using sel' by (simp add: set_update_memI)
  have tprops: "attached (surface b') = Some (buf_id t) \<and> busy t \<and> fits t w h s"
    using att sel' by (simp add: t_def fits_def)
  have origin: "(\<exists>x\<in>set (buffers b). \<not> busy x \<and> fits x w h s \<and> t = x\<lparr>busy := True, buf_data := buf_data t\<rparr>)
      \<or> (alloc env = Allocated (buf_id t) \<and> (\<forall>x\<in>set (buffers b). busy x \<or> \<not> fits x w h s))"
    using sel
  proof (elim disjE conjE exE)
    assume a: "pool = keep" "find_buffer keep w h s = Some i"
    have "pool ! i \<in> set (buffers b)" using sel' a(1) by (metis filter_is_subset keep_def nth_mem subsetD)
    moreover have "t = (pool ! i)\<lparr>busy := True, buf_data := buf_data t\<rparr>"
      by (simp add: t_def)
    ultimately show ?thesis using sel' by blast
  next
    fix p
    assume a: "alloc env = Allocated p" "i = 0" "find_buffer keep w h s = None"
      "pool = \<lparr>buf_id = p, busy = False, buf_width = w, buf_height = h, buf_stride = s,
                   buf_format = WL_SHM_FORMAT_XRGB8888, buf_size = ucast (h * s), buf_data = []\<rparr> # keep"
    have "buf_id t = p" using a by (simp add: t_def)
    moreover have "\<forall>x\<in>set (buffers b). busy x \<or> \<not> fits x w h s"
      using find_buffer_None [OF a(3)] by (auto simp: keep_def)
    ultimately show ?thesis using a(1) by blast
  qed
  show ?thesis
    unfolding pool_step_def Let_def wh(1,2)
    using p1 p2 tin tprops origin wh(3) unfolding w_def h_def s_def by blast
qed

subsection \<open>Every handler, by what it does\<close>

lemma step_cases:
  assumes "step env launcher apps ev b = Inr b'"
  obtains
    (drawn) b0 where "draw_background env apps b0 = Inr b'"
      "buffers b0 = buffers b" "freed b0 = freed b" "commits (surface b0) = commits (surface b)"
      "needs_draw b0 = needs_draw b"
      "frame b0 = frame b \<and> redraw_request ev
       \<or> frame b0 = None \<and> frame b \<noteq> None \<and> needs_draw b \<and> (\<exists>c. ev = Frame_done c)"
  | (quiet) "buffers b' = buffers b" "freed b' = freed b"
      "commits (surface b') = commits (surface b)" "needs_draw b' = needs_draw b"
      "y_scroll b' = y_scroll b" "height b' = height b" "width b' = width b"
      "extents_height b' = extents_height b"
      "frame b' = frame b \<or> frame b' = None \<and> \<not> needs_draw b \<and> (\<exists>c. ev = Frame_done c)"
  | (release) p where "ev = Buffer_release p"
      "b' = b\<lparr>buffers := map (\<lambda>x. if buf_id x = p then buffer_release x else x) (buffers b)\<rparr>"
proof (cases ev)
  case (Configure w h)
  then have "draw_background env apps (b\<lparr>width := w, height := h\<rparr>) = Inr b'"
    using assms by (simp add: step_def background_configure_def)
  then show ?thesis using Configure by (intro drawn [of "b\<lparr>width := w, height := h\<rparr>"]) simp_all
next
  case (Pointer_enter x y)
  define b0 where "b0 = b\<lparr>cursor_x := x, cursor_y := y\<rparr>"
  show ?thesis
  proof (cases "on_cursor_enter b = Some Background_cursor_enter")
    case True
    then have "draw_background env apps b0 = Inr b'"
      using assms Pointer_enter
      by (simp add: step_def pointer_enter_def background_cursor_enter_def b0_def)
    then show ?thesis using Pointer_enter by (intro drawn [of b0]) (simp_all add: b0_def)
  next
    case False
    then have "b' = b0" using assms Pointer_enter
      by (auto simp: step_def pointer_enter_def b0_def Let_def split: option.splits handler.splits)
    then show ?thesis by (intro quiet) (simp_all add: b0_def)
  qed
next
  case Pointer_leave
  define b0 where "b0 = b\<lparr>cursor_x := - 1, cursor_y := - 1\<rparr>"
  show ?thesis
  proof (cases "on_cursor_leave b = Some Background_cursor_leave")
    case True
    then have "draw_background env apps b0 = Inr b'"
      using assms Pointer_leave
      by (simp add: step_def pointer_leave_def background_cursor_leave_def b0_def)
    then show ?thesis using Pointer_leave by (intro drawn [of b0]) (simp_all add: b0_def)
  next
    case False
    then have "b' = b0" using assms Pointer_leave
      by (auto simp: step_def pointer_leave_def b0_def Let_def split: option.splits handler.splits)
    then show ?thesis by (intro quiet) (simp_all add: b0_def)
  qed
next
  case (Pointer_motion x y)
  define b0 where "b0 = b\<lparr>cursor_x := x, cursor_y := y\<rparr>"
  show ?thesis
  proof (cases "on_cursor_motion b = Some Background_cursor_motion")
    case True
    then have "draw_background env apps b0 = Inr b'"
      using assms Pointer_motion
      by (simp add: step_def pointer_motion_def background_cursor_motion_def b0_def)
    then show ?thesis using Pointer_motion by (intro drawn [of b0]) (simp_all add: b0_def)
  next
    case False
    then have "b' = b0" using assms Pointer_motion
      by (auto simp: step_def pointer_motion_def b0_def Let_def split: option.splits handler.splits)
    then show ?thesis by (intro quiet) (simp_all add: b0_def)
  qed
next
  case (Pointer_axis axis v)
  define b0 where "b0 = b\<lparr>y_scroll := y_scroll b + v\<rparr>"
  show ?thesis
  proof (cases "on_pointer_axis b = Some Background_pointer_axis \<and> axis = WL_POINTER_AXIS_VERTICAL_SCROLL")
    case True
    then have "draw_background env apps b0 = Inr b'"
      using assms Pointer_axis
      by (simp add: step_def pointer_axis_def background_pointer_axis_def b0_def)
    then show ?thesis using Pointer_axis True by (intro drawn [of b0]) (simp_all add: b0_def)
  next
    case False
    then have "b' = b" using assms Pointer_axis
      by (auto simp: step_def pointer_axis_def background_pointer_axis_def
          split: option.splits handler.splits if_splits)
    then show ?thesis by (intro quiet) simp_all
  qed
next
  case (Pointer_button button state)
  then have "b' = b" using assms by (auto simp: step_def split: sum.splits)
  then show ?thesis by (intro quiet) simp_all
next
  case (Frame_done c)
  from assms Frame_done obtain c' where c': "frame b = Some c'"
    by (auto simp: step_def background_frame_done_def split: option.splits)
  define b0 where "b0 = b\<lparr>surface := (surface b)\<lparr>frame_callbacks :=
      remove1 c' (frame_callbacks (surface b))\<rparr>, frame := None\<rparr>"
  show ?thesis
  proof (cases "needs_draw b")
    case True
    then have "draw_background env apps b0 = Inr b'"
      using assms Frame_done c' by (simp add: step_def background_frame_done_def b0_def Let_def)
    then show ?thesis using Frame_done True c' by (intro drawn [of b0]) (simp_all add: b0_def)
  next
    case False
    then have "b' = b0"
      using assms Frame_done c' by (simp add: step_def background_frame_done_def b0_def Let_def)
    then show ?thesis using False Frame_done by (intro quiet) (simp_all add: b0_def)
  qed
next
  case (Buffer_release p)
  then show ?thesis using assms by (intro release [of p]) (simp_all add: step_def)
qed

lemma step_pool:
  assumes "step env launcher apps ev b = Inr b'" and "\<forall>p. ev \<noteq> Buffer_release p"
  shows "pool_step env b b'"
  using assms(1)
proof (cases rule: step_cases)
  case (drawn b0)
  from draw_background_pool [OF drawn(1)] drawn(2-4) show ?thesis by (rule pool_step_cong)
next
  case quiet
  then show ?thesis by (simp add: pool_step_same)
next
  case (release p)
  then show ?thesis using assms(2) by simp
qed

lemma draw_background_scroll:
  assumes "length apps < 2 ^ 32" and "draw_background env apps b = Inr b'"
  shows "scroll_inv apps b'"
proof (cases "frame b")
  case (Some c)
  then have "b' = b\<lparr>needs_draw := True\<rparr>" using assms by (simp add: draw_background_def)
  then show ?thesis by (simp add: scroll_inv_def)
next
  case None
  from draw_background_idle [OF None assms(2)] obtain b1 i where
    sb: "select_buffer env (b\<lparr>needs_draw := False\<rparr>) = Inr (b1, i)"
    and b': "b' = paint_and_commit env apps b1 i" by blast
  show ?thesis
    using clamp_scroll_in_range [OF assms(1), of "font_height env" "height b1" "y_scroll b1"]
    by (simp add: scroll_inv_def scroll_in_range_def b' paint_and_commit_fields MENU_PADDING_def
        Let_def del: of_nat_unat)
qed

lemma step_scroll:
  assumes "length apps < 2 ^ 32" and "scroll_inv apps b" and "step env launcher apps ev b = Inr b'"
  shows "scroll_inv apps b'"
  using assms(3)
proof (cases rule: step_cases)
  case (drawn b0)
  then show ?thesis using assms(1) by (blast intro: draw_background_scroll)
next
  case quiet
  then show ?thesis using assms(2) by (simp add: scroll_inv_def scroll_in_range_def)
next
  case (release p)
  then show ?thesis using assms(2) by (simp add: scroll_inv_def scroll_in_range_def)
qed

lemma reachable_scroll:
  assumes "length apps < 2 ^ 32"
  shows "reachable apps b \<Longrightarrow> scroll_inv apps b"
proof (induction rule: reachable.induct)
  case reachable_new
  show ?case by (simp add: scroll_inv_def scroll_in_range_def new_background_def MENU_PADDING_def)
next
  case (reachable_step b ev env launcher b')
  then show ?case using assms by (blast intro: step_scroll)
qed

lemma run_reachable:
  "reachable apps b \<Longrightarrow> run launcher apps evs b = Inr b' \<Longrightarrow> reachable apps b'"
proof (induction evs arbitrary: b)
  case Nil
  then show ?case by simp
next
  case (Cons a evs)
  obtain env ev where a: "a = (env, ev)" by (cases a)
  show ?case
  proof (cases "deliverable ev b")
    case True
    with Cons.prems a obtain b1 where s: "step env launcher apps ev b = Inr b1"
      and r: "run launcher apps evs b1 = Inr b'"
      by (auto split: sum.splits)
    from reachable_step [OF Cons.prems(1) True s] have "reachable apps b1" .
    then show ?thesis using r by (rule Cons.IH)
  next
    case False
    then show ?thesis using Cons a by simp
  qed
qed

lemma draw_background_target:
  assumes "frame b = None" and "draw_background env apps b = Inr b'"
  shows "\<exists>i<length (buffers b').
           attached (surface b') = Some (buf_id (buffers b' ! i)) \<and> busy (buffers b' ! i) \<and>
           buf_data (buffers b' ! i) =
             Fill_rectangle (width b') (height b') Grey # List.map_filter id (painted_rows apps b')"
proof -
  from draw_background_idle [OF assms] obtain b1 i where
    sb: "select_buffer env (b\<lparr>needs_draw := False\<rparr>) = Inr (b1, i)"
    and b': "b' = paint_and_commit env apps b1 i" by blast
  from select_buffer_cases [OF sb] obtain pool where
    pool: "buffers b1 = pool"
    and sel: "find_buffer pool (width b) (height b) (stride_for_width env (width b)) = Some i
       \<or> (i = 0 \<and> pool \<noteq> [])"
    by auto
  have i: "i < length (buffers b1)"
    using sel pool find_buffer_Some [of pool "width b" "height b" "stride_for_width env (width b)" i]
    by auto
  have "buffers b' ! i = (buffers b1 ! i)\<lparr>buf_data :=
         Fill_rectangle (width b1) (height b1) Grey # List.map_filter id (painted_rows apps b'),
       busy := True\<rparr>"
    using i unfolding b' by (subst paint_and_commit_buffers) simp
  moreover have "length (buffers b') = length (buffers b1)"
    unfolding b' by (subst paint_and_commit_buffers) simp
  ultimately show ?thesis using i
    by (intro exI [of _ i]) (simp add: b' paint_and_commit_fields)
qed

subsection \<open>The buffer pool\<close>

text \<open>
  C1. Whatever event a background handles: a busy buffer of its pool is still in the
  pool afterwards, unchanged (not freed, not painted, still busy), unless the event is
  the release of that buffer; the buffers freed are buffers of the pool that were not
  busy and have the wrong width, height or stride; when the handler draws, the target is
  attached and busy afterwards and is either a buffer of the pool that was not busy and
  matches width, height and stride exactly, or the buffer this draw allocated because
  the pool had no such buffer; and the release event is the one that clears busy flags.
\<close>

theorem busy_buffers_kept_and_not_drawn:
  assumes "step env launcher apps ev b = Inr b'"
  shows "(\<forall>x\<in>set (buffers b). busy x \<and> ev \<noteq> Buffer_release (buf_id x) \<longrightarrow> x \<in> set (buffers b')) \<and>
     set (freed b') \<subseteq> set (freed b) \<union>
        {x \<in> set (buffers b). \<not> busy x \<and>
           \<not> fits x (width b') (height b') (stride_for_width env (width b'))} \<and>
     (commits (surface b') \<noteq> commits (surface b) \<longrightarrow>
        (\<exists>t\<in>set (buffers b').
           attached (surface b') = Some (buf_id t) \<and> busy t \<and>
           fits t (width b') (height b') (stride_for_width env (width b')) \<and>
           ((\<exists>x\<in>set (buffers b). \<not> busy x \<and>
                 fits x (width b') (height b') (stride_for_width env (width b')) \<and>
                 t = x\<lparr>busy := True, buf_data := buf_data t\<rparr>) \<or>
            (alloc env = Allocated (buf_id t) \<and>
             (\<forall>x\<in>set (buffers b). busy x \<or>
                 \<not> fits x (width b') (height b') (stride_for_width env (width b'))))))) \<and>
     (\<forall>p. ev = Buffer_release p \<longrightarrow>
        buffers b' = map (\<lambda>x. if buf_id x = p then x\<lparr>busy := False\<rparr> else x) (buffers b))"
proof (cases "\<exists>p. ev = Buffer_release p")
  case True
  then obtain p where p: "ev = Buffer_release p" by blast
  then have b': "b' = b\<lparr>buffers := map (\<lambda>x. if buf_id x = p then x\<lparr>busy := False\<rparr> else x) (buffers b)\<rparr>"
    using assms by (auto simp: step_def buffer_release_def cong: if_cong)
  have "\<forall>x\<in>set (buffers b). buf_id x \<noteq> p \<longrightarrow> x \<in> set (buffers b')"
    unfolding b' by (auto simp: image_iff)
  then show ?thesis using p b' by auto
next
  case False
  then have "pool_step env b b'" using assms by (intro step_pool) auto
  then show ?thesis using False unfolding pool_step_def Let_def by blast
qed

theorem busy_buffers_kept_and_not_drawn_witness:
  "busy busy_buffer \<and>
   map_sum id (\<lambda>b'. (map buf_id (buffers b'), busy_buffer \<in> set (buffers b'), freed b',
                  attached (surface b')))
     (step (example_env 2) (\<lambda>a. None) example_apps (Configure 1024 768)
        (new_background\<lparr>buffers := [busy_buffer], width := 800, height := 600\<rparr>))
   = Inr ([2, 1], True, [], Some 2)"
proof -
  obtain b' where s: "step (example_env 2) (\<lambda>a. None) example_apps (Configure 1024 768)
        (new_background\<lparr>buffers := [busy_buffer], width := 800, height := 600\<rparr>) = Inr b'"
    and ids: "map buf_id (buffers b') = [2, 1]" and fr: "freed b' = []"
    and att: "attached (surface b') = Some 2"
    by (simp add: step_def background_configure_def draw_background_def select_buffer_def
        paint_and_commit_def new_background_def create_buffer_def attach_buffer_def
        busy_buffer_def example_env_def Let_def)
  have "busy busy_buffer" by (simp add: busy_buffer_def)
  moreover from busy_buffers_kept_and_not_drawn [OF s] this have "busy_buffer \<in> set (buffers b')" by simp
  ultimately show ?thesis using s ids fr att by simp
qed

lemma frame_done_cases:
  assumes "throttle_inv b" and "background_frame_done env apps b = Inr b'"
  obtains c b0 where "frame b = Some c" "frame b0 = None" "frame_callbacks (surface b0) = []"
    "commits (surface b0) = commits (surface b)" "needs_draw b0 = needs_draw b"
    "if needs_draw b then draw_background env apps b0 = Inr b' else b' = b0"
proof -
  from assms(2) obtain c where c: "frame b = Some c"
    by (auto simp: background_frame_done_def split: option.splits)
  define b0 where "b0 = b\<lparr>surface := (surface b)\<lparr>frame_callbacks :=
      remove1 c (frame_callbacks (surface b))\<rparr>, frame := None\<rparr>"
  have "frame_callbacks (surface b0) = []"
    using assms(1) c by (simp add: b0_def throttle_inv_def callbacks_match_def)
  moreover have "if needs_draw b then draw_background env apps b0 = Inr b' else b' = b0"
    using assms(2) c by (auto simp: background_frame_done_def b0_def Let_def)
  ultimately show ?thesis using c by (intro that [of c b0]) (simp_all add: b0_def)
qed

subsection \<open>The frame throttle\<close>

text \<open>
  C2. In every state a run of the event loop reaches, at most one frame callback is
  outstanding on the surface. A redraw request (a call of \<^verbatim>\<open>draw_background\<close>) while
  one is outstanding draws nothing and only latches \<open>needs_draw\<close>; a request while none
  is outstanding draws once, at once, and leaves exactly its own callback outstanding.
  The completion of the callback draws exactly once when a request was latched, and
  not at all otherwise; until then no other event clears the latch or draws. With a
  successful allocation both handlers return. (A draw whose allocation fails does not
  return: see C3.)
\<close>

theorem frame_throttle:
  assumes "reachable apps b"
  shows "length (frame_callbacks (surface b)) \<le> 1 \<and>
    (frame b \<noteq> None \<longrightarrow> draw_background env apps b = Inr (b\<lparr>needs_draw := True\<rparr>)) \<and>
    (frame b = None \<and> draw_background env apps b = Inr b' \<longrightarrow>
       commits (surface b') = Suc (commits (surface b)) \<and> \<not> needs_draw b' \<and>
       frame b' = Some (new_callback env) \<and> frame_callbacks (surface b') = [new_callback env]) \<and>
    (needs_draw b \<and> background_frame_done env apps b = Inr b' \<longrightarrow>
       commits (surface b') = Suc (commits (surface b)) \<and> \<not> needs_draw b' \<and>
       frame b' = Some (new_callback env) \<and> frame_callbacks (surface b') = [new_callback env]) \<and>
    (\<not> needs_draw b \<and> background_frame_done env apps b = Inr b' \<longrightarrow>
       commits (surface b') = commits (surface b) \<and> \<not> needs_draw b' \<and>
       frame b' = None \<and> frame_callbacks (surface b') = []) \<and>
    (needs_draw b \<and> (\<forall>c. ev \<noteq> Frame_done c) \<and> step env launcher apps ev b = Inr b' \<longrightarrow>
       needs_draw b' \<and> commits (surface b') = commits (surface b)) \<and>
    (alloc env = Allocated p \<longrightarrow>
       (\<exists>b''. draw_background env apps b = Inr b'') \<and>
       (frame b \<noteq> None \<longrightarrow> (\<exists>b''. background_frame_done env apps b = Inr b'')))"
proof -
  have inv: "throttle_inv b" using assms by (rule reachable_inv)
  have cb: "frame_callbacks (surface b) = (case frame b of None \<Rightarrow> [] | Some c \<Rightarrow> [c])"
    and nd: "needs_draw b \<longrightarrow> frame b \<noteq> None"
    using inv by (simp_all add: throttle_inv_def callbacks_match_def)
  have g1: "length (frame_callbacks (surface b)) \<le> 1"
    using cb by (simp split: option.splits)
  have g2: "frame b \<noteq> None \<longrightarrow> draw_background env apps b = Inr (b\<lparr>needs_draw := True\<rparr>)"
    by (simp add: draw_background_pending)
  have g3: "frame b = None \<and> draw_background env apps b = Inr b' \<longrightarrow>
       commits (surface b') = Suc (commits (surface b)) \<and> \<not> needs_draw b' \<and>
       frame b' = Some (new_callback env) \<and> frame_callbacks (surface b') = [new_callback env]"
  proof (intro impI, elim conjE)
    assume f: "frame b = None" and d: "draw_background env apps b = Inr b'"
    from draw_background_frame [OF f d] cb f
    show "commits (surface b') = Suc (commits (surface b)) \<and> \<not> needs_draw b' \<and>
       frame b' = Some (new_callback env) \<and> frame_callbacks (surface b') = [new_callback env]"
      by simp
  qed
  have g4: "needs_draw b \<and> background_frame_done env apps b = Inr b' \<longrightarrow>
       commits (surface b') = Suc (commits (surface b)) \<and> \<not> needs_draw b' \<and>
       frame b' = Some (new_callback env) \<and> frame_callbacks (surface b') = [new_callback env]"
  proof (intro impI, elim conjE)
    assume n: "needs_draw b" and f: "background_frame_done env apps b = Inr b'"
    from frame_done_cases [OF inv f] obtain c :: nat and b0 where
      b0: "frame b0 = None" "frame_callbacks (surface b0) = []"
        "commits (surface b0) = commits (surface b)"
        "if needs_draw b then draw_background env apps b0 = Inr b' else b' = b0"
      by metis
    then have d: "draw_background env apps b0 = Inr b'" using n by simp
    from draw_background_frame [OF b0(1) d] b0(2,3)
    show "commits (surface b') = Suc (commits (surface b)) \<and> \<not> needs_draw b' \<and>
       frame b' = Some (new_callback env) \<and> frame_callbacks (surface b') = [new_callback env]"
      by simp
  qed
  have g5: "\<not> needs_draw b \<and> background_frame_done env apps b = Inr b' \<longrightarrow>
       commits (surface b') = commits (surface b) \<and> \<not> needs_draw b' \<and>
       frame b' = None \<and> frame_callbacks (surface b') = []"
  proof (intro impI, elim conjE)
    assume n: "\<not> needs_draw b" and f: "background_frame_done env apps b = Inr b'"
    from frame_done_cases [OF inv f] obtain c :: nat and b0 where
      b0: "frame b0 = None" "frame_callbacks (surface b0) = []"
        "commits (surface b0) = commits (surface b)" "needs_draw b0 = needs_draw b"
        "if needs_draw b then draw_background env apps b0 = Inr b' else b' = b0"
      by metis
    then show "commits (surface b') = commits (surface b) \<and> \<not> needs_draw b' \<and>
       frame b' = None \<and> frame_callbacks (surface b') = []"
      using n by simp
  qed
  have g6: "needs_draw b \<and> (\<forall>c. ev \<noteq> Frame_done c) \<and> step env launcher apps ev b = Inr b' \<longrightarrow>
       needs_draw b' \<and> commits (surface b') = commits (surface b)"
  proof (intro impI, elim conjE)
    assume n: "needs_draw b" and e: "\<forall>c. ev \<noteq> Frame_done c"
      and s: "step env launcher apps ev b = Inr b'"
    from s show "needs_draw b' \<and> commits (surface b') = commits (surface b)"
    proof (cases rule: step_cases)
      case (drawn b0)
      then have "frame b0 \<noteq> None" using e n nd by auto
      then have "b' = b0\<lparr>needs_draw := True\<rparr>" using drawn(1) by (simp add: draw_background_pending)
      then show ?thesis using drawn by simp
    next
      case quiet
      then show ?thesis using n by simp
    next
      case (release p)
      then show ?thesis using n by simp
    qed
  qed
  have g7: "alloc env = Allocated p \<longrightarrow>
       (\<exists>b''. draw_background env apps b = Inr b'') \<and>
       (frame b \<noteq> None \<longrightarrow> (\<exists>b''. background_frame_done env apps b = Inr b''))"
    using draw_background_total [of env p]
    by (auto simp: background_frame_done_def Let_def)
  show ?thesis using g1 g2 g3 g4 g5 g6 g7 by blast
qed

theorem frame_throttle_witness:
  "map_sum id (\<lambda>b. (frame_callbacks (surface b), commits (surface b), needs_draw b,
        draw_background (example_env 3) example_apps b = Inr (b\<lparr>needs_draw := True\<rparr>)))
     (run (\<lambda>a. None) example_apps
        [(example_env 1, Configure 800 600), (example_env 2, Pointer_motion 5 40)]
        new_background) = Inr ([1], 1, True, True)"
proof -
  obtain B where r: "run (\<lambda>a. None) example_apps
        [(example_env 1, Configure 800 600), (example_env 2, Pointer_motion 5 40)]
        new_background = Inr B"
    and f: "frame B = Some 1" and c: "commits (surface B) = 1" and n: "needs_draw B"
    and cb: "frame_callbacks (surface B) = [1]"
    by (simp add: step_def background_configure_def draw_background_def select_buffer_def
      paint_and_commit_def new_background_def create_buffer_def pointer_motion_def
      background_cursor_motion_def attach_buffer_def example_apps_def example_env_def Let_def)
  have reach: "reachable example_apps B" by (rule run_reachable [OF reachable_new r])
  note th = frame_throttle [OF reach, where env = "example_env 3"]
  from th [THEN conjunct2, THEN conjunct1] f
  have "draw_background (example_env 3) example_apps B = Inr (B\<lparr>needs_draw := True\<rparr>)" by simp
  then show ?thesis using r f c n cb by simp
qed

text \<open>
  C7. In every reachable state \<open>needs_draw\<close> holds only while a frame callback is
  outstanding; it becomes true only by a redraw request handled while the callback is
  outstanding; \<^verbatim>\<open>draw_background\<close> leaves it true exactly when it found a callback
  outstanding (so it is cleared by every draw); and the completion handler, which clears
  the handle before it draws again, always leaves it false.
\<close>

theorem needs_draw_only_while_frame_outstanding:
  assumes "reachable apps b"
  shows "(needs_draw b \<longrightarrow> frame b \<noteq> None \<and> frame_callbacks (surface b) \<noteq> []) \<and>
     (\<not> needs_draw b \<and> step env launcher apps ev b = Inr b' \<and> needs_draw b' \<longrightarrow>
        frame b \<noteq> None \<and> frame b' = frame b \<and> redraw_request ev) \<and>
     (draw_background env apps b = Inr b' \<longrightarrow> needs_draw b' = (frame b \<noteq> None)) \<and>
     (background_frame_done env apps b = Inr b' \<longrightarrow>
        \<not> needs_draw b' \<and>
        frame b' = (if needs_draw b then Some (new_callback env) else None))"
proof -
  have inv: "throttle_inv b" using assms by (rule reachable_inv)
  have h1: "needs_draw b \<longrightarrow> frame b \<noteq> None \<and> frame_callbacks (surface b) \<noteq> []"
    using inv by (auto simp: throttle_inv_def callbacks_match_def)
  have draw: "needs_draw b1 = (frame b0 \<noteq> None)" if "draw_background env apps b0 = Inr b1" for b0 b1
  proof (cases "frame b0")
    case None
    from draw_background_frame(2) [OF None that] None show ?thesis by simp
  next
    case (Some c)
    then show ?thesis using that by (auto simp: draw_background_def)
  qed
  have h2: "\<not> needs_draw b \<and> step env launcher apps ev b = Inr b' \<and> needs_draw b' \<longrightarrow>
        frame b \<noteq> None \<and> frame b' = frame b \<and> redraw_request ev"
  proof (intro impI, elim conjE)
    assume n: "\<not> needs_draw b" and s: "step env launcher apps ev b = Inr b'" and n': "needs_draw b'"
    from s show "frame b \<noteq> None \<and> frame b' = frame b \<and> redraw_request ev"
    proof (cases rule: step_cases)
      case (drawn b0)
      have f0: "frame b0 \<noteq> None" using draw [OF drawn(1)] n' by simp
      then have "b' = b0\<lparr>needs_draw := True\<rparr>" using drawn(1) by (simp add: draw_background_pending)
      then show ?thesis using drawn(6) f0 by auto
    next
      case quiet
      then show ?thesis using n n' by simp
    next
      case (release p)
      then show ?thesis using n n' by simp
    qed
  qed
  have h3: "draw_background env apps b = Inr b' \<longrightarrow> needs_draw b' = (frame b \<noteq> None)"
    using draw by blast
  have h4: "background_frame_done env apps b = Inr b' \<longrightarrow>
        \<not> needs_draw b' \<and>
        frame b' = (if needs_draw b then Some (new_callback env) else None)"
  proof
    assume f: "background_frame_done env apps b = Inr b'"
    from frame_done_cases [OF inv f] obtain c :: nat and b0 where
      b0: "frame b0 = None" "needs_draw b0 = needs_draw b"
        "if needs_draw b then draw_background env apps b0 = Inr b' else b' = b0"
      by metis
    show "\<not> needs_draw b' \<and> frame b' = (if needs_draw b then Some (new_callback env) else None)"
    proof (cases "needs_draw b")
      case True
      then have "draw_background env apps b0 = Inr b'" using b0 by simp
      from draw_background_frame(1,2) [OF b0(1) this] True show ?thesis by simp
    next
      case False
      then show ?thesis using b0 by simp
    qed
  qed
  show ?thesis using h1 h2 h3 h4 by blast
qed

theorem needs_draw_only_while_frame_outstanding_witness:
  "map_sum id (\<lambda>b. (needs_draw b, frame b \<noteq> None, frame_callbacks (surface b) \<noteq> []))
     (run (\<lambda>a. None) example_apps
        [(example_env 1, Configure 800 600),
         (example_env 2, Pointer_axis WL_POINTER_AXIS_VERTICAL_SCROLL 15)]
        new_background) = Inr (True, True, True)"
proof -
  obtain B where r: "run (\<lambda>a. None) example_apps
        [(example_env 1, Configure 800 600),
         (example_env 2, Pointer_axis WL_POINTER_AXIS_VERTICAL_SCROLL 15)]
        new_background = Inr B"
    and n: "needs_draw B"
    by (simp add: step_def background_configure_def draw_background_def select_buffer_def
      paint_and_commit_def new_background_def create_buffer_def pointer_axis_def
      background_pointer_axis_def attach_buffer_def example_apps_def example_env_def
      WL_POINTER_AXIS_VERTICAL_SCROLL_def Let_def)
  have reach: "reachable example_apps B" by (rule run_reachable [OF reachable_new r])
  from needs_draw_only_while_frame_outstanding [OF reach, THEN conjunct1] n
  have "frame B \<noteq> None \<and> frame_callbacks (surface B) \<noteq> []" by simp
  then show ?thesis using r n by simp
qed

subsection \<open>The scroll offset\<close>

text \<open>
  C4, as stated, fails: a vertical scroll delta that arrives while a frame callback is
  outstanding is added to \<open>y_scroll\<close> and not clamped, since the clamp is in the part of
  \<^verbatim>\<open>draw_background\<close> behind the frame throttle. After a configure to 800 by 600 (which
  draws) and a scroll by 5, with three entries of height 23, the offset is 5 although
  the menu is shorter than the surface.
\<close>

theorem scroll_not_clamped_while_frame_outstanding:
  "map_sum id (\<lambda>b. (y_scroll b, scroll_in_range example_apps b))
     (run (\<lambda>a. None) example_apps
        [(example_env 1, Configure 800 600),
         (example_env 2, Pointer_axis WL_POINTER_AXIS_VERTICAL_SCROLL 5)]
        new_background) = Inr (5, False)"
  by (simp add: step_def background_configure_def draw_background_def select_buffer_def
      paint_and_commit_def new_background_def create_buffer_def pointer_axis_def
      background_pointer_axis_def attach_buffer_def clamp_scroll_def g_list_length_def
      MENU_PADDING_def scroll_in_range_def List.map_filter_def example_apps_def example_env_def
      WL_POINTER_AXIS_VERTICAL_SCROLL_def Let_def)

text \<open>
  C4, amended. In every reachable state in which no redraw is latched (in particular
  after every draw), the scroll offset is within 0 and the larger of 0 and the total
  height minus the visible height, and is 0 when the total height is at most the visible
  height. A vertical delta handled while no frame callback is outstanding is added and
  clamped at once; one handled while a callback is outstanding is added unclamped, and
  latches the redraw that will clamp it. (The entry count is a \<^verbatim>\<open>guint\<close>: below
  \<open>2 ^ 32\<close>.)
\<close>

theorem scroll_in_range_when_no_redraw_latched:
  assumes "reachable apps b" and "length apps < 2 ^ 32"
  shows "(\<not> needs_draw b \<longrightarrow> scroll_in_range apps b) \<and>
    (frame b = None \<and>
       background_pointer_axis env apps WL_POINTER_AXIS_VERTICAL_SCROLL v b = Inr b' \<longrightarrow>
       scroll_in_range apps b') \<and>
    (frame b \<noteq> None \<longrightarrow>
       background_pointer_axis env apps WL_POINTER_AXIS_VERTICAL_SCROLL v b =
         Inr (b\<lparr>y_scroll := y_scroll b + v, needs_draw := True\<rparr>))"
proof -
  have "scroll_inv apps b" using assms by (intro reachable_scroll)
  then have a: "\<not> needs_draw b \<longrightarrow> scroll_in_range apps b" by (simp add: scroll_inv_def)
  have b: "frame b = None \<and>
       background_pointer_axis env apps WL_POINTER_AXIS_VERTICAL_SCROLL v b = Inr b' \<longrightarrow>
       scroll_in_range apps b'"
  proof (intro impI, elim conjE)
    assume f: "frame b = None"
      and d: "background_pointer_axis env apps WL_POINTER_AXIS_VERTICAL_SCROLL v b = Inr b'"
    from d have d': "draw_background env apps (b\<lparr>y_scroll := y_scroll b + v\<rparr>) = Inr b'"
      by (simp add: background_pointer_axis_def)
    have "frame (b\<lparr>y_scroll := y_scroll b + v\<rparr>) = None" using f by simp
    from draw_background_frame(2) [OF this d'] draw_background_scroll [OF assms(2) d']
    show "scroll_in_range apps b'" by (simp add: scroll_inv_def)
  qed
  have c: "frame b \<noteq> None \<longrightarrow>
       background_pointer_axis env apps WL_POINTER_AXIS_VERTICAL_SCROLL v b =
         Inr (b\<lparr>y_scroll := y_scroll b + v, needs_draw := True\<rparr>)"
    by (simp add: background_pointer_axis_def draw_background_def)
  show ?thesis using a b c by blast
qed

theorem scroll_in_range_when_no_redraw_latched_witness:
  "map_sum id (\<lambda>b. (needs_draw b, y_scroll b, scroll_in_range example_apps b))
     (run (\<lambda>a. None) example_apps
        [(example_env 1, Configure 800 60), (example_env 2, Frame_done 1),
         (example_env 3, Pointer_axis WL_POINTER_AXIS_VERTICAL_SCROLL 100)]
        new_background) = Inr (False, 29, True)"
proof -
  obtain B where r: "run (\<lambda>a. None) example_apps
        [(example_env 1, Configure 800 60), (example_env 2, Frame_done 1),
         (example_env 3, Pointer_axis WL_POINTER_AXIS_VERTICAL_SCROLL 100)]
        new_background = Inr B"
    and n: "\<not> needs_draw B" and y: "y_scroll B = 29"
    by (simp add: step_def background_configure_def draw_background_def select_buffer_def
      paint_and_commit_def new_background_def create_buffer_def pointer_axis_def
      background_pointer_axis_def background_frame_done_def attach_buffer_def clamp_scroll_def
      g_list_length_def MENU_PADDING_def example_apps_def example_env_def
      WL_POINTER_AXIS_VERTICAL_SCROLL_def Let_def fits_def)
  have reach: "reachable example_apps B" by (rule run_reachable [OF reachable_new r])
  have len: "length example_apps < 2 ^ 32" by (simp add: example_apps_def)
  from scroll_in_range_when_no_redraw_latched [OF reach len, THEN conjunct1] n have "scroll_in_range example_apps B" by simp
  then show ?thesis using r n y by simp
qed

subsection \<open>Allocation failure\<close>

text \<open>
  C3. The claim: when \<^verbatim>\<open>create_buffer\<close> returns no buffer, the draw is skipped and the
  process continues. The code: a configure event on a fresh background (no buffer to
  reuse) whose allocation fails at \<^verbatim>\<open>mmap\<close> makes \<^verbatim>\<open>draw_background\<close> pass the null
  pointer to \<^verbatim>\<open>wl_list_insert\<close>; the handler does not return a background.
\<close>

theorem configure_alloc_failure_null_dereference:
  "step \<lparr>alloc = Mmap_failed, new_callback = 1, font_ascent = 18, font_height = 23,
          stride_for_width = (\<lambda>w. 4 * w)\<rparr>
     (\<lambda>a. None) [] (Configure 800 600) new_background = Inl Null_dereference"
  by (simp add: step_def background_configure_def draw_background_def select_buffer_def
      new_background_def create_buffer_def)

subsection \<open>The button handler\<close>

text \<open>
  C6. While the cached row height is zero (as it is before the first draw), a button
  event launches nothing and the handler does not reach the division: the result is
  the empty list of effects, for every button and state, not an undefined conversion.
\<close>

theorem button_zero_row_height_no_launch:
  "extents_height b = 0 \<Longrightarrow> background_pointer_button launcher apps b button state = Inr []"
  by (simp add: background_pointer_button_def)

theorem button_zero_row_height_no_launch_witness:
  "extents_height new_background = 0 \<and>
   background_pointer_button (\<lambda>a. None) [\<lparr>app_name = ''Box'', app_handle = 0\<rparr>] new_background
     BTN_LEFT WL_POINTER_BUTTON_STATE_RELEASED = Inr []"
  using button_zero_row_height_no_launch [of new_background "\<lambda>a. None"
      "[\<lparr>app_name = ''Box'', app_handle = 0\<rparr>]" BTN_LEFT WL_POINTER_BUTTON_STATE_RELEASED]
  by (simp add: new_background_def)

text \<open>
  C5. With a positive row height (and the quotient within the range of \<^verbatim>\<open>guint\<close>,
  where the conversion of the source is defined), the button handler is the
  specification's hit test: a left-button release launches the application at the index
  the hit test yields, once, and nothing when it yields none; any other button or state
  launches nothing. A launch that fails adds a line on the error stream and the handler
  returns all the same.
\<close>

theorem button_launches_hit_entry:
  assumes "0 < extents_height b"
    and "(cursor_y b + y_scroll b - real_of_int MENU_PADDING) / extents_height b < 2 ^ 32"
  shows "background_pointer_button launcher apps b button state =
           Inr (if button = BTN_LEFT \<and> state = WL_POINTER_BUTTON_STATE_RELEASED
                then (case hit_test (length apps) (extents_height b) (y_scroll b) (cursor_y b) of
                        None \<Rightarrow> []
                      | Some index \<Rightarrow> launch_app launcher (apps ! index))
                else []) \<and>
         launches (launch_app launcher app) = [app] \<and>
         (launcher app \<noteq> None \<longrightarrow> (\<exists>msg. launch_app launcher app = [Launch app, Stderr msg]))"
proof -
  have "launcher app \<noteq> None \<longrightarrow> (\<exists>msg. launch_app launcher app = [Launch app, Stderr msg])"
    by (auto simp: launch_app_def)
  then show ?thesis
    using button_hit_test [OF assms, of launcher apps button state]
    by (simp add: launches_launch_app)
qed

theorem button_launches_hit_entry_witness:
  "0 < extents_height (new_background\<lparr>cursor_y := 60, extents_height := 23\<rparr>) \<and>
   background_pointer_button (\<lambda>a. None)
     [\<lparr>app_name = ''Box'', app_handle = 2\<rparr>, \<lparr>app_name = ''Zed'', app_handle = 0\<rparr>,
      \<lparr>app_name = ''apple'', app_handle = 1\<rparr>]
     (new_background\<lparr>cursor_y := 60, extents_height := 23\<rparr>)
     BTN_LEFT WL_POINTER_BUTTON_STATE_RELEASED =
   Inr [Launch \<lparr>app_name = ''apple'', app_handle = 1\<rparr>]"
  using button_launches_hit_entry [of "new_background\<lparr>cursor_y := 60, extents_height := 23\<rparr>"
      "\<lambda>a. None"
      "[\<lparr>app_name = ''Box'', app_handle = 2\<rparr>, \<lparr>app_name = ''Zed'', app_handle = 0\<rparr>,
        \<lparr>app_name = ''apple'', app_handle = 1\<rparr>]"
      BTN_LEFT WL_POINTER_BUTTON_STATE_RELEASED]
  by (simp add: new_background_def hit_test_def MENU_PADDING_def launch_app_def)

text \<open>
  C10. For a positive row height and an entry \<open>i\<close> of the list: the renderer paints
  entry \<open>i\<close> in the highlight colour exactly when its row is painted and the cursor is
  above the row's top (exclusive) down to its bottom (inclusive), and for a cursor on
  the surface a row that holds it is always painted, so the highlight is exactly that
  interval; a left-button release with the cursor from the row's top (inclusive) to its
  bottom (exclusive) launches entry \<open>i\<close>. Hence with the cursor exactly on the top of
  row \<open>i\<close>, \<open>i\<close> at least 1, the release launches entry \<open>i\<close> while the highlighted entry
  is \<open>i - 1\<close>, not \<open>i\<close>. The rows are those a draw paints into the buffer it attaches.
\<close>

theorem highlight_and_hit_test_intervals:
  assumes "0 < extents_height b" and "i < length apps" and "length apps < 2 ^ 32"
  shows "(highlighted apps b i \<longleftrightarrow>
            (row_y b i + extents_height b \<ge> 0 \<and> row_y b i \<le> real (unat (height b))) \<and>
            row_y b i < cursor_y b \<and> cursor_y b \<le> row_y b i + extents_height b) \<and>
         (0 \<le> cursor_y b \<and> cursor_y b \<le> real (unat (height b)) \<longrightarrow>
            (highlighted apps b i \<longleftrightarrow>
               row_y b i < cursor_y b \<and> cursor_y b \<le> row_y b i + extents_height b)) \<and>
         (row_y b i \<le> cursor_y b \<and> cursor_y b < row_y b i + extents_height b \<longrightarrow>
            background_pointer_button launcher apps b BTN_LEFT WL_POINTER_BUTTON_STATE_RELEASED =
              Inr (launch_app launcher (apps ! i))) \<and>
         (cursor_y b = row_y b i \<and> 1 \<le> i \<longrightarrow>
            background_pointer_button launcher apps b BTN_LEFT WL_POINTER_BUTTON_STATE_RELEASED =
              Inr (launch_app launcher (apps ! i)) \<and>
            \<not> highlighted apps b i \<and>
            (0 \<le> cursor_y b \<and> cursor_y b \<le> real (unat (height b)) \<longrightarrow>
               highlighted apps b (i - 1))) \<and>
         (frame b0 = None \<and> draw_background env apps b0 = Inr b \<longrightarrow>
            (\<exists>k<length (buffers b).
               attached (surface b) = Some (buf_id (buffers b ! k)) \<and>
               buf_data (buffers b ! k) =
                 Fill_rectangle (width b) (height b) Grey
                 # List.map_filter id (painted_rows apps b)))"
proof -
  have h1: "highlighted apps b i \<longleftrightarrow>
            (row_y b i + extents_height b \<ge> 0 \<and> row_y b i \<le> real (unat (height b))) \<and>
            row_y b i < cursor_y b \<and> cursor_y b \<le> row_y b i + extents_height b"
    using assms(2) by (simp add: highlighted_iff del: of_nat_unat)
  have h2: "0 \<le> cursor_y b \<and> cursor_y b \<le> real (unat (height b)) \<longrightarrow>
            (highlighted apps b i \<longleftrightarrow>
               row_y b i < cursor_y b \<and> cursor_y b \<le> row_y b i + extents_height b)"
    using h1 by auto
  have h3: "row_y b i \<le> cursor_y b \<and> cursor_y b < row_y b i + extents_height b \<longrightarrow>
            background_pointer_button launcher apps b BTN_LEFT WL_POINTER_BUTTON_STATE_RELEASED =
              Inr (launch_app launcher (apps ! i))"
    using button_in_row [OF assms] by blast
  have h4: "cursor_y b = row_y b i \<and> 1 \<le> i \<longrightarrow>
            background_pointer_button launcher apps b BTN_LEFT WL_POINTER_BUTTON_STATE_RELEASED =
              Inr (launch_app launcher (apps ! i)) \<and>
            \<not> highlighted apps b i \<and>
            (0 \<le> cursor_y b \<and> cursor_y b \<le> real (unat (height b)) \<longrightarrow>
               highlighted apps b (i - 1))"
  proof (intro impI, elim conjE)
    assume eq: "cursor_y b = row_y b i" and i1: "1 \<le> i"
    have prev: "row_y b (i - 1) + extents_height b = row_y b i"
      using i1 by (simp add: row_y_def algebra_simps)
    have a: "background_pointer_button launcher apps b BTN_LEFT WL_POINTER_BUTTON_STATE_RELEASED =
              Inr (launch_app launcher (apps ! i))"
      using h3 eq assms(1) by simp
    have b: "\<not> highlighted apps b i" using h1 eq by simp
    have c: "0 \<le> cursor_y b \<and> cursor_y b \<le> real (unat (height b)) \<longrightarrow> highlighted apps b (i - 1)"
      using prev eq assms(1,2) i1 by (auto simp: highlighted_iff simp del: of_nat_unat)
    show "background_pointer_button launcher apps b BTN_LEFT WL_POINTER_BUTTON_STATE_RELEASED =
              Inr (launch_app launcher (apps ! i)) \<and>
            \<not> highlighted apps b i \<and>
            (0 \<le> cursor_y b \<and> cursor_y b \<le> real (unat (height b)) \<longrightarrow>
               highlighted apps b (i - 1))"
      using a b c by blast
  qed
  have h5: "frame b0 = None \<and> draw_background env apps b0 = Inr b \<longrightarrow>
            (\<exists>k<length (buffers b).
               attached (surface b) = Some (buf_id (buffers b ! k)) \<and>
               buf_data (buffers b ! k) =
                 Fill_rectangle (width b) (height b) Grey
                 # List.map_filter id (painted_rows apps b))"
    using draw_background_target [of b0 env apps b] by blast
  show ?thesis using h1 h2 h3 h4 h5 by blast
qed

theorem highlight_and_hit_test_intervals_witness:
  "background_pointer_button (\<lambda>a. None) example_apps
     (new_background\<lparr>cursor_y := 33, height := 600, extents_height := 23\<rparr>)
     BTN_LEFT WL_POINTER_BUTTON_STATE_RELEASED = Inr [Launch (example_apps ! 1)] \<and>
   highlighted example_apps (new_background\<lparr>cursor_y := 33, height := 600, extents_height := 23\<rparr>) 0 \<and>
   \<not> highlighted example_apps (new_background\<lparr>cursor_y := 33, height := 600, extents_height := 23\<rparr>) 1"
proof -
  define B where "B = new_background\<lparr>cursor_y := 33, height := 600, extents_height := 23\<rparr>"
  have H: "0 < extents_height B" and i: "1 < length example_apps"
    and n: "length example_apps < 2 ^ 32"
    and eq: "cursor_y B = row_y B 1 \<and> (1 :: nat) \<le> 1"
    and on: "0 \<le> cursor_y B \<and> cursor_y B \<le> real (unat (height B))"
    by (simp_all add: B_def new_background_def example_apps_def row_y_def MENU_PADDING_def)
  note th = highlight_and_hit_test_intervals [OF H i n, where launcher = "\<lambda>a. None"]
  from th [THEN conjunct2, THEN conjunct2, THEN conjunct2, THEN conjunct1] eq on
  have "background_pointer_button (\<lambda>a. None) example_apps B BTN_LEFT
          WL_POINTER_BUTTON_STATE_RELEASED = Inr (launch_app (\<lambda>a. None) (example_apps ! 1)) \<and>
        \<not> highlighted example_apps B 1 \<and> highlighted example_apps B (1 - 1)"
    by blast
  then show ?thesis by (simp add: B_def launch_app_def)
qed

subsection \<open>The application list\<close>

lemma filter_g_list_insert_sorted:
  "filter (\<lambda>a. app_name a = n) (g_list_insert_sorted xs d sort_apps) =
     (if app_name d = n then d # filter (\<lambda>a. app_name a = n) xs
      else filter (\<lambda>a. app_name a = n) xs)"
  by (induction xs) (auto simp: sort_apps_def g_strcmp0_def split: if_splits)

lemma set_g_list_insert_sorted: "set (g_list_insert_sorted xs d f) = insert d (set xs)"
  by (induction xs) auto

lemma mset_g_list_insert_sorted: "mset (g_list_insert_sorted xs d f) = add_mset d (mset xs)"
  by (induction xs) auto

lemma sorted_g_list_insert_sorted:
  "sorted (map app_name xs) \<Longrightarrow> sorted (map app_name (g_list_insert_sorted xs d sort_apps))"
  by (induction xs)
    (auto simp: set_g_list_insert_sorted sort_apps_def g_strcmp0_def split: if_splits)

lemma sorted_insert_apps:
  "sorted (map app_name acc) \<Longrightarrow> sorted (map app_name (insert_apps ss apps acc))"
  by (induction apps arbitrary: acc) (auto simp: sorted_g_list_insert_sorted)

lemma mset_insert_apps: "mset (insert_apps ss apps acc) = mset (filter ss apps) + mset acc"
  by (induction apps arbitrary: acc) (auto simp: mset_g_list_insert_sorted)

lemma filter_insert_apps:
  "filter (\<lambda>a. app_name a = n) (insert_apps ss apps acc) =
     rev (filter (\<lambda>a. app_name a = n) (filter ss apps)) @ filter (\<lambda>a. app_name a = n) acc"
  by (induction apps arbitrary: acc) (auto simp: filter_g_list_insert_sorted)

text \<open>
  C9, as stated, fails on ties: two applications with the same name come out in the
  reverse of their input order, because the insertion puts the new entry in front of
  the first entry that is not smaller.
\<close>

theorem application_list_ties_not_stable:
  "build_application_list (\<lambda>a. True)
     [\<lparr>app_name = ''A'', app_handle = 1\<rparr>, \<lparr>app_name = ''A'', app_handle = 2\<rparr>] =
   [\<lparr>app_name = ''A'', app_handle = 2\<rparr>, \<lparr>app_name = ''A'', app_handle = 1\<rparr>] \<and>
   build_application_list (\<lambda>a. True)
     [\<lparr>app_name = ''A'', app_handle = 1\<rparr>, \<lparr>app_name = ''A'', app_handle = 2\<rparr>] \<noteq>
   [\<lparr>app_name = ''A'', app_handle = 1\<rparr>, \<lparr>app_name = ''A'', app_handle = 2\<rparr>]"
  by (simp add: build_application_list_def sort_apps_def g_strcmp0_def)

text \<open>
  C9, amended. The application list built at startup holds exactly the entries that
  should be shown, sorted ascending by display name under bytewise comparison; the
  entries of one name are in the reverse of their input order; and the names
  Zed, apple, Box come out as Box, Zed, apple.
\<close>

theorem application_list_sorted_ties_reversed:
  "sorted (map app_name (build_application_list should_show app_list)) \<and>
   mset (build_application_list should_show app_list) = mset (filter should_show app_list) \<and>
   filter (\<lambda>a. app_name a = n) (build_application_list should_show app_list) =
     rev (filter (\<lambda>a. app_name a = n) (filter should_show app_list)) \<and>
   map app_name (build_application_list (\<lambda>a. True)
     [\<lparr>app_name = ''Zed'', app_handle = 0\<rparr>, \<lparr>app_name = ''apple'', app_handle = 1\<rparr>,
      \<lparr>app_name = ''Box'', app_handle = 2\<rparr>]) = [''Box'', ''Zed'', ''apple'']"
proof -
  have "sorted (map app_name (build_application_list should_show app_list))"
    unfolding build_application_list_def by (rule sorted_insert_apps) simp
  moreover have "mset (build_application_list should_show app_list) =
      mset (filter should_show app_list)"
    by (simp add: build_application_list_def mset_insert_apps)
  moreover have "filter (\<lambda>a. app_name a = n) (build_application_list should_show app_list) =
      rev (filter (\<lambda>a. app_name a = n) (filter should_show app_list))"
    by (simp add: build_application_list_def filter_insert_apps)
  moreover have "map app_name (build_application_list (\<lambda>a. True)
     [\<lparr>app_name = ''Zed'', app_handle = 0\<rparr>, \<lparr>app_name = ''apple'', app_handle = 1\<rparr>,
      \<lparr>app_name = ''Box'', app_handle = 2\<rparr>]) = [''Box'', ''Zed'', ''apple'']"
    by (simp add: build_application_list_def sort_apps_def g_strcmp0_def less_char_def)
  ultimately show ?thesis by simp
qed

subsection \<open>Outputs\<close>

lemma and_current: "(flags AND WL_OUTPUT_MODE_CURRENT \<noteq> 0) = bit flags 0" for flags :: u32
  by (simp add: WL_OUTPUT_MODE_CURRENT_def and_one_eq bit_0 odd_iff_mod_2_eq_one)

text \<open>
  C8. The first done event of an output creates its background (an empty buffer pool,
  the configure handler and the cursor name set) and sends the one request that
  registers its surface as the output's background; a done event for an output that has
  a background changes nothing and sends nothing, so a second done event is a no-op. A
  mode event stores width and height when the current-mode bit of the flags is set, and
  leaves the output as it is otherwise.
\<close>

theorem output_provisioning_idempotent:
  "(out_background out = None \<longrightarrow>
      output_done out = (out\<lparr>out_background := Some new_background\<rparr>,
                         [Set_background (surface new_background)])) \<and>
   buffers new_background = [] \<and>
   configure new_background = Some Background_configure \<and>
   cursor new_background = Some ''left_ptr'' \<and>
   (out_background out \<noteq> None \<longrightarrow> output_done out = (out, [])) \<and>
   output_done (fst (output_done out)) = (fst (output_done out), []) \<and>
   (bit flags 0 \<longrightarrow> output_mode out flags w h = out\<lparr>out_width := w, out_height := h\<rparr>) \<and>
   (\<not> bit flags 0 \<longrightarrow> output_mode out flags w h = out)"
  by (auto simp: output_done_def output_mode_def and_current new_background_def split: option.splits)

theorem output_provisioning_idempotent_witness:
  "output_done \<lparr>out_background = None, out_width = 800, out_height = 600\<rparr> =
     (\<lparr>out_background = Some new_background, out_width = 800, out_height = 600\<rparr>,
      [Set_background (surface new_background)]) \<and>
   output_done \<lparr>out_background = Some new_background, out_width = 800, out_height = 600\<rparr> =
     (\<lparr>out_background = Some new_background, out_width = 800, out_height = 600\<rparr>, []) \<and>
   output_mode \<lparr>out_background = None, out_width = 0, out_height = 0\<rparr> 3 800 600 =
     \<lparr>out_background = None, out_width = 800, out_height = 600\<rparr> \<and>
   output_mode \<lparr>out_background = None, out_width = 0, out_height = 0\<rparr> 2 800 600 =
     \<lparr>out_background = None, out_width = 0, out_height = 0\<rparr>"
proof -
  note a = output_provisioning_idempotent [of "\<lparr>out_background = None, out_width = 800, out_height = 600\<rparr>"]
  note b = output_provisioning_idempotent [of "\<lparr>out_background = Some new_background, out_width = 800, out_height = 600\<rparr>"]
  note c = output_provisioning_idempotent [of "\<lparr>out_background = None, out_width = 0, out_height = 0\<rparr>" 3 800 600]
  note d = output_provisioning_idempotent [of "\<lparr>out_background = None, out_width = 0, out_height = 0\<rparr>" 2 800 600]
  have "bit (3 :: u32) 0" "\<not> bit (2 :: u32) 0" by (simp_all add: bit_0)
  then show ?thesis
    using a [THEN conjunct1] b [THEN conjunct2, THEN conjunct2, THEN conjunct2, THEN conjunct2, THEN conjunct1]
      c [THEN conjunct2, THEN conjunct2, THEN conjunct2, THEN conjunct2, THEN conjunct2, THEN conjunct2, THEN conjunct1]
      d [THEN conjunct2, THEN conjunct2, THEN conjunct2, THEN conjunct2, THEN conjunct2, THEN conjunct2, THEN conjunct2]
    by simp
qed

end
